theory Spec2Isabelle
  imports Main "HOL-Library.AList" "HOL-Library.Multiset"
begin

section \<open>The relay server (src/server.js)\<close>

text \<open>
  \<^verbatim>\<open>TabOrchestraServer\<close> keeps two JavaScript \<^verbatim>\<open>Map\<close>s, \<^verbatim>\<open>groups\<close> and \<^verbatim>\<open>clients\<close>.
  A \<^verbatim>\<open>Map\<close> iterates in insertion order and \<^verbatim>\<open>set\<close> on an existing key keeps the
  key's position, so a \<^verbatim>\<open>Map\<close> is an association list read with \<open>map_of\<close>, written
  with \<open>AList.update\<close> and shrunk with \<open>AList.delete\<close>. A \<^verbatim>\<open>Set\<close> is a list without
  repetitions in insertion order (\<open>set_add\<close>, \<open>set_delete\<close>). Mutating an object held in
  a \<^verbatim>\<open>Map\<close> is writing the changed record back under its key.

  \<^verbatim>\<open>Date.now()\<close> is the argument \<open>now\<close> of a handler: one handler invocation runs to
  completion on the event loop and is given one clock reading. Identifiers are strings.
  A payload (\<^verbatim>\<open>message.data\<close>) is opaque to the server: \<open>Some p\<close> is a JSON value with
  properties, \<open>None\<close> is \<^verbatim>\<open>undefined\<close> or \<^verbatim>\<open>null\<close> (spreading it adds nothing, reading a
  property of it throws a \<^verbatim>\<open>TypeError\<close>).

  What the server sends is collected in \<open>outbox\<close>, in the order of the \<^verbatim>\<open>send\<close> calls.
  A \<^verbatim>\<open>send\<close> delivers when the socket's \<^verbatim>\<open>readyState\<close> is \<^verbatim>\<open>OPEN\<close> (\<open>ws_open\<close>); on a
  socket in any other state nothing is delivered (the library throws or drops, and every
  \<^verbatim>\<open>send\<close> of the server sits in a \<^verbatim>\<open>try\<close>/\<^verbatim>\<open>catch\<close> or behind a \<^verbatim>\<open>readyState\<close> test).
\<close>

type_synonym cid = string
type_synonym gid = string
type_synonym time = int

record 'p shared_tab =
  payload :: "'p option"
  sharedBy :: cid
  timestamp :: time

record 'p annotation =
  ann_payload :: "'p option"
  createdBy :: cid
  ann_timestamp :: time

record 'p group =
  group_id :: gid
  members :: "cid list"
  sharedTabs :: "'p shared_tab list"
  annotations :: "'p annotation list"
  created :: time

record client =
  ws_open :: bool
  cgroups :: "gid list"
  lastSeen :: time

datatype 'p message =
    Welcome cid
  | Pong
  | GroupJoined gid nat
  | GroupData "'p shared_tab list" "'p annotation list"
  | MemberJoined cid nat
  | MemberLeft cid nat
  | TabShared "'p shared_tab"
  | AnnotationUpdate "'p option" cid
  | ClusterUpdateOut "'p option" cid

record 'p server =
  groups :: "(gid \<times> 'p group) list"
  clients :: "(cid \<times> client) list"
  outbox :: "(cid \<times> 'p message) list"

text \<open>The inbound envelopes of \<^verbatim>\<open>handleMessage\<close>, by \<^verbatim>\<open>message.type\<close>; \<open>Unrecognized\<close>
  is any other type (the \<^verbatim>\<open>switch\<close> has no default case).\<close>

datatype 'p envelope =
    Heartbeat
  | JoinGroup gid
  | LeaveGroup gid
  | ShareTab "'p option"
  | AnnotationCreated "'p option"
  | AIClusterUpdate "'p option"
  | Unrecognized

text \<open>A frame as the \<^verbatim>\<open>message\<close> listener receives it: \<open>Malformed\<close> makes
  \<^verbatim>\<open>JSON.parse\<close> throw, \<open>JsonNull\<close> parses to \<^verbatim>\<open>null\<close> (reading \<^verbatim>\<open>message.type\<close> throws).\<close>

datatype 'p frame = Malformed | JsonNull | Envelope "'p envelope"

text \<open>A handler either returns or throws; both leave a state behind.\<close>

datatype 'p outcome = Done "'p server" | Threw "'p server"

fun state_of :: "'p outcome \<Rightarrow> 'p server" where
  "state_of (Done s) = s"
| "state_of (Threw s) = s"

definition init :: "'p server" where
  "init = \<lparr>groups = [], clients = [], outbox = []\<rparr>"

definition set_add :: "'a \<Rightarrow> 'a list \<Rightarrow> 'a list" where
  "set_add x xs = (if x \<in> set xs then xs else xs @ [x])"

definition set_delete :: "'a \<Rightarrow> 'a list \<Rightarrow> 'a list" where
  "set_delete x xs = removeAll x xs"

text \<open>\<^verbatim>\<open>array.slice(-n)\<close>: the last \<open>n\<close> elements, all of them when there are fewer.\<close>

definition slice_last :: "nat \<Rightarrow> 'a list \<Rightarrow> 'a list" where
  "slice_last n xs = drop (length xs - n) xs"

definition ws_send :: "client \<Rightarrow> cid \<Rightarrow> 'p message \<Rightarrow> 'p server \<Rightarrow> 'p server" where
  "ws_send cl c m s = (if ws_open cl then s\<lparr>outbox := outbox s @ [(c, m)]\<rparr> else s)"

definition recipients :: "'p server \<Rightarrow> cid list \<Rightarrow> cid option \<Rightarrow> cid list" where
  "recipients s ms excludeClientId =
     filter (\<lambda>memberId.
        (excludeClientId = None \<or> Some memberId \<noteq> excludeClientId) \<and>
        (case map_of (clients s) memberId of
           None \<Rightarrow> False
         | Some cl \<Rightarrow> ws_open cl)) ms"

definition broadcastToGroup ::
  "gid \<Rightarrow> 'p message \<Rightarrow> cid option \<Rightarrow> 'p server \<Rightarrow> 'p server" where
  "broadcastToGroup groupId m excludeClientId s =
     (case map_of (groups s) groupId of
        None \<Rightarrow> s
      | Some grp \<Rightarrow>
          s\<lparr>outbox := outbox s @
               map (\<lambda>memberId. (memberId, m)) (recipients s (members grp) excludeClientId)\<rparr>)"

text \<open>The \<^verbatim>\<open>connection\<close> listener: \<open>clientId\<close> is what \<^verbatim>\<open>generateClientId\<close> returned and
  \<open>opn\<close> the state of the new socket. \<^verbatim>\<open>clients.set\<close> replaces a record already stored
  under the identifier.\<close>

definition connect :: "cid \<Rightarrow> bool \<Rightarrow> time \<Rightarrow> 'p server \<Rightarrow> 'p server" where
  "connect clientId opn now s =
     (let cl = \<lparr>ws_open = opn, cgroups = [], lastSeen = now\<rparr>
      in ws_send cl clientId (Welcome clientId)
           (s\<lparr>clients := AList.update clientId cl (clients s)\<rparr>))"

definition handleHeartbeat :: "cid \<Rightarrow> time \<Rightarrow> 'p server \<Rightarrow> 'p server" where
  "handleHeartbeat clientId now s =
     (case map_of (clients s) clientId of
        None \<Rightarrow> s
      | Some cl \<Rightarrow>
          if ws_open cl
          then (ws_send cl clientId Pong s)
                 \<lparr>clients := AList.update clientId (cl\<lparr>lastSeen := now\<rparr>) (clients s)\<rparr>
          else s)"

definition new_group :: "gid \<Rightarrow> time \<Rightarrow> 'p group" where
  "new_group groupId now =
     \<lparr>group_id = groupId, members = [], sharedTabs = [], annotations = [], created = now\<rparr>"

definition handleJoinGroup :: "cid \<Rightarrow> gid \<Rightarrow> time \<Rightarrow> 'p server \<Rightarrow> 'p server" where
  "handleJoinGroup clientId groupId now s =
     (case map_of (clients s) clientId of
        None \<Rightarrow> s
      | Some cl \<Rightarrow>
          let grp0 = (case map_of (groups s) groupId of
                        None \<Rightarrow> new_group groupId now
                      | Some grp \<Rightarrow> grp);
              grp1 = grp0\<lparr>members := set_add clientId (members grp0)\<rparr>;
              cl1 = cl\<lparr>cgroups := set_add groupId (cgroups cl)\<rparr>;
              s1 = s\<lparr>groups := AList.update groupId grp1 (groups s),
                     clients := AList.update clientId cl1 (clients s)\<rparr>;
              s2 = ws_send cl1 clientId (GroupJoined groupId (length (members grp1))) s1;
              s3 = ws_send cl1 clientId (GroupData (sharedTabs grp1) (annotations grp1)) s2
          in broadcastToGroup groupId (MemberJoined clientId (length (members grp1)))
               (Some clientId) s3)"

definition handleLeaveGroup :: "cid \<Rightarrow> gid \<Rightarrow> 'p server \<Rightarrow> 'p server" where
  "handleLeaveGroup clientId groupId s =
     (case map_of (clients s) clientId of
        None \<Rightarrow> s
      | Some cl \<Rightarrow>
         (case map_of (groups s) groupId of
            None \<Rightarrow> s
          | Some grp \<Rightarrow>
              let grp1 = grp\<lparr>members := set_delete clientId (members grp)\<rparr>;
                  cl1 = cl\<lparr>cgroups := set_delete groupId (cgroups cl)\<rparr>;
                  s1 = s\<lparr>groups := AList.update groupId grp1 (groups s),
                         clients := AList.update clientId cl1 (clients s)\<rparr>;
                  s2 = broadcastToGroup groupId
                         (MemberLeft clientId (length (members grp1))) (Some clientId) s1
              in if length (members grp1) = 0
                 then s2\<lparr>groups := AList.delete groupId (groups s2)\<rparr>
                 else s2))"

text \<open>The body of the \<^verbatim>\<open>forEach\<close> of \<^verbatim>\<open>handleShareTab\<close> for one group. The last statement
  of the body logs \<^verbatim>\<open>tabData.title\<close>, which throws when the payload is \<^verbatim>\<open>undefined\<close> or
  \<^verbatim>\<open>null\<close>: the record has been stored and broadcast by then, and the throw ends the
  \<^verbatim>\<open>forEach\<close>, so the remaining groups of the sender are not visited.\<close>

fun share_each :: "cid \<Rightarrow> 'p option \<Rightarrow> time \<Rightarrow> gid list \<Rightarrow> 'p server \<Rightarrow> 'p outcome" where
  "share_each clientId tabData now [] s = Done s"
| "share_each clientId tabData now (groupId # rest) s =
     (case map_of (groups s) groupId of
        None \<Rightarrow> share_each clientId tabData now rest s
      | Some grp \<Rightarrow>
          let completeTabData = \<lparr>payload = tabData, sharedBy = clientId, timestamp = now\<rparr>;
              pushed = sharedTabs grp @ [completeTabData];
              kept = (if length pushed > 100 then slice_last 100 pushed else pushed);
              s1 = s\<lparr>groups := AList.update groupId (grp\<lparr>sharedTabs := kept\<rparr>) (groups s)\<rparr>;
              s2 = broadcastToGroup groupId (TabShared completeTabData) None s1;
              s3 = broadcastToGroup groupId (GroupData kept (annotations grp)) None s2
          in (case tabData of
                None \<Rightarrow> Threw s3
              | Some p \<Rightarrow> share_each clientId tabData now rest s3))"

definition handleShareTab :: "cid \<Rightarrow> 'p option \<Rightarrow> time \<Rightarrow> 'p server \<Rightarrow> 'p outcome" where
  "handleShareTab clientId tabData now s =
     (case map_of (clients s) clientId of
        None \<Rightarrow> Done s
      | Some cl \<Rightarrow> share_each clientId tabData now (cgroups cl) s)"

fun annotate_each :: "cid \<Rightarrow> 'p option \<Rightarrow> time \<Rightarrow> gid list \<Rightarrow> 'p server \<Rightarrow> 'p server" where
  "annotate_each clientId annotationData now [] s = s"
| "annotate_each clientId annotationData now (groupId # rest) s =
     (case map_of (groups s) groupId of
        None \<Rightarrow> annotate_each clientId annotationData now rest s
      | Some grp \<Rightarrow>
          let a = \<lparr>ann_payload = annotationData, createdBy = clientId, ann_timestamp = now\<rparr>;
              s1 = s\<lparr>groups :=
                       AList.update groupId (grp\<lparr>annotations := annotations grp @ [a]\<rparr>)
                         (groups s)\<rparr>;
              s2 = broadcastToGroup groupId (AnnotationUpdate annotationData clientId)
                     (Some clientId) s1
          in annotate_each clientId annotationData now rest s2)"

definition handleAnnotation :: "cid \<Rightarrow> 'p option \<Rightarrow> time \<Rightarrow> 'p server \<Rightarrow> 'p server" where
  "handleAnnotation clientId annotationData now s =
     (case map_of (clients s) clientId of
        None \<Rightarrow> s
      | Some cl \<Rightarrow> annotate_each clientId annotationData now (cgroups cl) s)"

definition handleClusterUpdate :: "cid \<Rightarrow> 'p option \<Rightarrow> 'p server \<Rightarrow> 'p server" where
  "handleClusterUpdate clientId clusterData s =
     (case map_of (clients s) clientId of
        None \<Rightarrow> s
      | Some cl \<Rightarrow>
          foldl (\<lambda>s' groupId.
                   broadcastToGroup groupId (ClusterUpdateOut clusterData clientId)
                     (Some clientId) s')
            s (cgroups cl))"

definition handleMessage :: "cid \<Rightarrow> 'p envelope \<Rightarrow> time \<Rightarrow> 'p server \<Rightarrow> 'p outcome" where
  "handleMessage clientId message now s =
     (case map_of (clients s) clientId of
        None \<Rightarrow> Done s
      | Some cl \<Rightarrow>
          let s1 = s\<lparr>clients := AList.update clientId (cl\<lparr>lastSeen := now\<rparr>) (clients s)\<rparr>
          in (case message of
                Heartbeat \<Rightarrow> Done (handleHeartbeat clientId now s1)
              | JoinGroup groupId \<Rightarrow> Done (handleJoinGroup clientId groupId now s1)
              | LeaveGroup groupId \<Rightarrow> Done (handleLeaveGroup clientId groupId s1)
              | ShareTab d \<Rightarrow> handleShareTab clientId d now s1
              | AnnotationCreated d \<Rightarrow> Done (handleAnnotation clientId d now s1)
              | AIClusterUpdate d \<Rightarrow> Done (handleClusterUpdate clientId d s1)
              | Unrecognized \<Rightarrow> Done s1))"

text \<open>The \<^verbatim>\<open>message\<close> listener: parse, dispatch, and catch whatever is thrown.\<close>

definition on_message :: "cid \<Rightarrow> 'p frame \<Rightarrow> time \<Rightarrow> 'p server \<Rightarrow> 'p server" where
  "on_message clientId fr now s =
     (case fr of
        Malformed \<Rightarrow> s
      | JsonNull \<Rightarrow>
          (case map_of (clients s) clientId of
             None \<Rightarrow> s
           | Some cl \<Rightarrow>
               s\<lparr>clients := AList.update clientId (cl\<lparr>lastSeen := now\<rparr>) (clients s)\<rparr>)
      | Envelope message \<Rightarrow> state_of (handleMessage clientId message now s))"

definition handleClientDisconnect :: "cid \<Rightarrow> 'p server \<Rightarrow> 'p server" where
  "handleClientDisconnect clientId s =
     (case map_of (clients s) clientId of
        None \<Rightarrow> s
      | Some cl \<Rightarrow>
          let s1 = foldl (\<lambda>s' groupId. handleLeaveGroup clientId groupId s') s (cgroups cl)
          in s1\<lparr>clients := AList.delete clientId (clients s1)\<rparr>)"

text \<open>One tick of the timer of \<^verbatim>\<open>startCleanupTimer\<close>. Both \<^verbatim>\<open>forEach\<close> loops delete only
  the entry they are visiting, so each visits the entries the \<^verbatim>\<open>Map\<close> had when its loop
  started.\<close>

definition sweep_clients :: "time \<Rightarrow> 'p server \<Rightarrow> 'p server" where
  "sweep_clients now s =
     foldl (\<lambda>s' (clientId, cl).
              if now - lastSeen cl > 5 * 60 * 1000
              then handleClientDisconnect clientId s' else s')
       s (clients s)"

definition sweep_groups :: "time \<Rightarrow> 'p server \<Rightarrow> 'p server" where
  "sweep_groups now s =
     s\<lparr>groups := filter (\<lambda>(groupId, grp).
                     \<not> (length (members grp) = 0 \<and> now - created grp > 60 * 60 * 1000))
                   (groups s)\<rparr>"

definition sweep :: "time \<Rightarrow> 'p server \<Rightarrow> 'p server" where
  "sweep now s = sweep_groups now (sweep_clients now s)"

subsection \<open>Reading the registries\<close>

definition is_member :: "'p server \<Rightarrow> cid \<Rightarrow> gid \<Rightarrow> bool" where
  "is_member s c g =
     (case map_of (groups s) g of None \<Rightarrow> False | Some grp \<Rightarrow> c \<in> set (members grp))"

definition has_joined :: "'p server \<Rightarrow> cid \<Rightarrow> gid \<Rightarrow> bool" where
  "has_joined s c g =
     (case map_of (clients s) c of None \<Rightarrow> False | Some cl \<Rightarrow> g \<in> set (cgroups cl))"

text \<open>Registry symmetry: a connection is in a group's member set exactly when the group is
  in the connection's set of joined groups.\<close>

definition symmetric :: "'p server \<Rightarrow> bool" where
  "symmetric s = (\<forall>c g. is_member s c g = has_joined s c g)"

text \<open>The shape the registries have in every state the server reaches: keys occur once
  (they are \<^verbatim>\<open>Map\<close>s), members and joined groups occur once (they are \<^verbatim>\<open>Set\<close>s), no
  registered group is empty, and the two registries mirror each other.\<close>

definition registry_ok :: "'p server \<Rightarrow> bool" where
  "registry_ok s =
     (distinct (map fst (groups s)) \<and> distinct (map fst (clients s)) \<and>
      (\<forall>(g, grp) \<in> set (groups s).
          distinct (members grp) \<and> members grp \<noteq> [] \<and>
          (\<forall>c \<in> set (members grp). has_joined s c g)) \<and>
      (\<forall>(c, cl) \<in> set (clients s).
          distinct (cgroups cl) \<and> (\<forall>g \<in> set (cgroups cl). is_member s c g)))"

text \<open>The part of \<open>registry_ok\<close> that does not relate the two registries, stated on
  lookups.\<close>

definition tidy :: "'p server \<Rightarrow> bool" where
  "tidy s =
     (distinct (map fst (groups s)) \<and> distinct (map fst (clients s)) \<and>
      (\<forall>g grp. map_of (groups s) g = Some grp \<longrightarrow> distinct (members grp) \<and> members grp \<noteq> []) \<and>
      (\<forall>c cl. map_of (clients s) c = Some cl \<longrightarrow> distinct (cgroups cl)))"

text \<open>What the registries say about membership, without histories, logs and
  timestamps.\<close>

definition mview :: "'p server \<Rightarrow> (gid \<times> cid list) list" where
  "mview s = map (\<lambda>(g, grp). (g, members grp)) (groups s)"

definition cview :: "'p server \<Rightarrow> (cid \<times> gid list) list" where
  "cview s = map (\<lambda>(c, cl). (c, cgroups cl)) (clients s)"

text \<open>Sequences of the three membership operations.\<close>

datatype op = Join cid gid time | Leave cid gid | Disconnect cid

fun apply_op :: "op \<Rightarrow> 'p server \<Rightarrow> 'p server" where
  "apply_op (Join c g now) s = handleJoinGroup c g now s"
| "apply_op (Leave c g) s = handleLeaveGroup c g s"
| "apply_op (Disconnect c) s = handleClientDisconnect c s"

fun run_ops :: "op list \<Rightarrow> 'p server \<Rightarrow> 'p server" where
  "run_ops [] s = s"
| "run_ops (x # xs) s = run_ops xs (apply_op x s)"

text \<open>A small run of the server, used to instantiate the theorems: two connections join
  group \<open>g\<close> and the first shares a tab.\<close>

definition demo :: "string server" where
  "demo = state_of (handleShareTab ''a'' (Some ''tab'') 30
            (handleJoinGroup ''b'' ''g'' 20 (handleJoinGroup ''a'' ''g'' 10
               (connect ''b'' True 2 (connect ''a'' True 1 init)))))"

text \<open>A sequence of \<^verbatim>\<open>share_tab\<close> messages, each handled by \<^verbatim>\<open>handleShareTab\<close> inside the
  listener's \<^verbatim>\<open>try\<close>/\<^verbatim>\<open>catch\<close>: sender, payload and clock reading.\<close>

fun share_all :: "(cid \<times> 'p option \<times> time) list \<Rightarrow> 'p server \<Rightarrow> 'p server" where
  "share_all [] s = s"
| "share_all ((c, d, now) # rest) s = share_all rest (state_of (handleShareTab c d now s))"

text \<open>Whether a share by \<open>c\<close> with payload \<open>d\<close> puts a record into group \<open>g\<close>: a payload
  with properties goes to every group the sender has joined; an \<^verbatim>\<open>undefined\<close> or \<^verbatim>\<open>null\<close>
  payload goes to the first of them only, as the handler throws after it.\<close>

definition delivers :: "'p server \<Rightarrow> cid \<Rightarrow> 'p option \<Rightarrow> gid \<Rightarrow> bool" where
  "delivers s c d g =
     (case map_of (clients s) c of
        None \<Rightarrow> False
      | Some cl \<Rightarrow>
          (case d of
             Some p \<Rightarrow> g \<in> set (cgroups cl)
           | None \<Rightarrow> (case cgroups cl of [] \<Rightarrow> False | g0 # rest \<Rightarrow> g = g0)))"

text \<open>The records a sequence of shares delivers into \<open>g\<close>, in arrival order.\<close>

definition delivered ::
  "'p server \<Rightarrow> gid \<Rightarrow> (cid \<times> 'p option \<times> time) list \<Rightarrow> 'p shared_tab list" where
  "delivered s g sends =
     map (\<lambda>(c, d, now). \<lparr>payload = d, sharedBy = c, timestamp = now\<rparr>)
       (filter (\<lambda>(c, d, now). delivers s c d g) sends)"

text \<open>150 shares by connection \<open>a\<close>, at times 100 to 249.\<close>

definition burst :: "(cid \<times> string option \<times> time) list" where
  "burst = map (\<lambda>i. (''a'', Some ''page'', 100 + int i)) [0..<150]"

text \<open>The liveness timestamp the registry holds for a connection, if it is registered.\<close>

definition seen :: "'p server \<Rightarrow> cid \<Rightarrow> time option" where
  "seen s c = map_option lastSeen (map_of (clients s) c)"

text \<open>What happens to the server: a connection is accepted, a frame arrives on a
  connection, a connection closes, the cleanup timer fires. \<open>fresh_ids\<close> says that every
  accepted connection got an identifier that is not registered at that moment, which is
  what \<^verbatim>\<open>generateClientId\<close> is meant to give.\<close>

datatype 'p event = Connection cid bool time | Message cid "'p frame" time | Close cid | Tick time

fun step :: "'p event \<Rightarrow> 'p server \<Rightarrow> 'p server" where
  "step (Connection c opn now) s = connect c opn now s"
| "step (Message c fr now) s = on_message c fr now s"
| "step (Close c) s = handleClientDisconnect c s"
| "step (Tick now) s = sweep now s"

fun run :: "'p event list \<Rightarrow> 'p server \<Rightarrow> 'p server" where
  "run [] s = s"
| "run (e # es) s = run es (step e s)"

fun fresh_ids :: "'p event list \<Rightarrow> 'p server \<Rightarrow> bool" where
  "fresh_ids [] s = True"
| "fresh_ids (e # es) s =
     ((case e of Connection c opn now \<Rightarrow> map_of (clients s) c = None | _ \<Rightarrow> True) \<and>
      fresh_ids es (step e s))"

section \<open>The extension: service worker and offscreen document (src/unnamed/part_001)\<close>

text \<open>
  The service worker keeps the reconciled tab list (\<^verbatim>\<open>sharedTabs\<close>) and the published
  cluster list (\<^verbatim>\<open>aiClusters\<close>) in \<^verbatim>\<open>chrome.storage.local\<close>. A tab record carries the
  fields the reconciler and the clustering read; timestamps are integer milliseconds.
  A cluster is \<^verbatim>\<open>{name, tabs, theme}\<close>; its name is \<open>None\<close> when the classifier left it
  out (the property is then \<^verbatim>\<open>undefined\<close>).
\<close>

record tab =
  tab_title :: string
  tab_url :: string
  tab_groupId :: string
  tab_timestamp :: int

record cluster =
  cluster_name :: "string option"
  cluster_tabs :: "tab list"
  cluster_theme :: string

subsection \<open>\<^verbatim>\<open>handleSharedTab\<close>: reconciling a relayed tab\<close>

text \<open>What the handler does besides returning the stored list: the \<^verbatim>\<open>duplicate_tab_warning\<close>
  it sends to the interface (URL, title, timestamp of the original), nothing for an echo,
  or the append (after which the clusters are recomputed).\<close>

datatype notice = DuplicateTabWarning string string int

datatype verdict = Rejected notice | EchoIgnored | Appended

definition handleSharedTab :: "tab \<Rightarrow> tab list \<Rightarrow> verdict \<times> tab list" where
  "handleSharedTab tabData storedTabs =
     (case find (\<lambda>t. tab_url t = tab_url tabData \<and>
                       tab_groupId t = tab_groupId tabData \<and>
                       abs (tab_timestamp t - tab_timestamp tabData) > 1000) storedTabs of
        Some existingTab \<Rightarrow>
          (Rejected (DuplicateTabWarning (tab_url tabData) (tab_title tabData)
                       (tab_timestamp existingTab)),
           storedTabs)
      | None \<Rightarrow>
          if list_ex (\<lambda>t. tab_url t = tab_url tabData \<and>
                            abs (tab_timestamp t - tab_timestamp tabData) \<le> 1000) storedTabs
          then (EchoIgnored, storedTabs)
          else (Appended, storedTabs @ [tabData]))"

text \<open>The match of the dedup policy (same URL and same group) and the distance between
  two timestamps.\<close>

definition same_page :: "tab \<Rightarrow> tab \<Rightarrow> bool" where
  "same_page t tabData = (tab_url t = tab_url tabData \<and> tab_groupId t = tab_groupId tabData)"

definition gap :: "tab \<Rightarrow> tab \<Rightarrow> int" where
  "gap t tabData = abs (tab_timestamp t - tab_timestamp tabData)"

text \<open>The same page shared in two groups half a second apart.\<close>

definition page_g1 :: tab where
  "page_g1 = \<lparr>tab_title = ''Docs'', tab_url = ''https://a.example/'', tab_groupId = ''g1'',
              tab_timestamp = 0\<rparr>"

definition page_g2 :: tab where
  "page_g2 = \<lparr>tab_title = ''Docs'', tab_url = ''https://a.example/'', tab_groupId = ''g2'',
              tab_timestamp = 500\<rparr>"

subsection \<open>\<^verbatim>\<open>simpleGroupByDomain\<close>: the fallback grouping\<close>

text \<open>
  \<^verbatim>\<open>domainGroups\<close> is a plain object (\<^verbatim>\<open>{}\<close>) used as a dictionary. Its own properties are
  an association list in creation order. Reading a property that is not its own goes to
  \<^verbatim>\<open>Object.prototype\<close>: for the names below the read gives a function (or, for
  \<^verbatim>\<open>__proto__\<close>, the prototype object), which is truthy and has no \<^verbatim>\<open>push\<close>.
\<close>

definition object_prototype_keys :: "string list" where
  "object_prototype_keys =
     [''constructor'', ''__defineGetter__'', ''__defineSetter__'', ''hasOwnProperty'',
      ''__lookupGetter__'', ''__lookupSetter__'', ''isPrototypeOf'', ''propertyIsEnumerable'',
      ''toString'', ''valueOf'', ''__proto__'', ''toLocaleString'']"

datatype 'a js_prop = Own 'a | Inherited | Undefined

definition js_get :: "(string \<times> 'a) list \<Rightarrow> string \<Rightarrow> 'a js_prop" where
  "js_get obj k =
     (case map_of obj k of
        Some v \<Rightarrow> Own v
      | None \<Rightarrow> if k \<in> set object_prototype_keys then Inherited else Undefined)"

text \<open>\<^verbatim>\<open>Object.entries\<close> lists the own properties whose names are array indices (canonical
  decimal numerals below \<open>2^32 - 1\<close>) first, in ascending numeric order, then the other
  names in creation order.\<close>

definition is_digit :: "char \<Rightarrow> bool" where
  "is_digit c = (48 \<le> (of_char c :: nat) \<and> (of_char c :: nat) \<le> 57)"

definition index_value :: "string \<Rightarrow> nat" where
  "index_value k = foldl (\<lambda>n c. 10 * n + (of_char c - 48)) 0 k"

definition is_array_index :: "string \<Rightarrow> bool" where
  "is_array_index k =
     (k \<noteq> [] \<and> list_all is_digit k \<and> (hd k \<noteq> CHR ''0'' \<or> k = ''0'') \<and>
      index_value k < 2 ^ 32 - 1)"

definition object_entries :: "(string \<times> 'a) list \<Rightarrow> (string \<times> 'a) list" where
  "object_entries obj =
     sort_key (\<lambda>e. index_value (fst e)) (filter (\<lambda>e. is_array_index (fst e)) obj) @
     filter (\<lambda>e. \<not> is_array_index (fst e)) obj"

text \<open>The \<^verbatim>\<open>catch\<close> block: create \<^verbatim>\<open>domainGroups['Other']\<close> if it is missing and push.\<close>

definition push_other :: "tab \<Rightarrow> (string \<times> tab list) list \<Rightarrow> (string \<times> tab list) list" where
  "push_other t domainGroups =
     (case js_get domainGroups ''Other'' of
        Own ts \<Rightarrow> AList.update ''Other'' (ts @ [t]) domainGroups
      | _ \<Rightarrow> AList.update ''Other'' [t] domainGroups)"

text \<open>The body of the \<^verbatim>\<open>forEach\<close>. \<open>hostname\<close> stands for \<^verbatim>\<open>new URL(tab.url).hostname\<close>,
  \<open>None\<close> when the constructor throws. In the \<^verbatim>\<open>try\<close> block, \<^verbatim>\<open>!domainGroups[domain]\<close> is
  true only when the read is \<^verbatim>\<open>undefined\<close>; when the read finds an inherited property the
  group is not created and \<^verbatim>\<open>domainGroups[domain].push\<close> is not a function: the
  \<^verbatim>\<open>TypeError\<close> lands in the same \<^verbatim>\<open>catch\<close> as an invalid URL.\<close>

definition add_tab ::
  "(string \<Rightarrow> string option) \<Rightarrow> (string \<times> tab list) list \<Rightarrow> tab \<Rightarrow> (string \<times> tab list) list"
  where
  "add_tab hostname domainGroups t =
     (case hostname (tab_url t) of
        None \<Rightarrow> push_other t domainGroups
      | Some domain \<Rightarrow>
          (case js_get domainGroups domain of
             Own ts \<Rightarrow> AList.update domain (ts @ [t]) domainGroups
           | Undefined \<Rightarrow> AList.update domain [t] domainGroups
           | Inherited \<Rightarrow> push_other t domainGroups))"

definition simpleGroupByDomain :: "(string \<Rightarrow> string option) \<Rightarrow> tab list \<Rightarrow> cluster list" where
  "simpleGroupByDomain hostname tabs =
     map (\<lambda>(domain, ts).
            \<lparr>cluster_name = Some domain, cluster_tabs = ts,
             cluster_theme = ''Content from '' @ domain\<rparr>)
       (object_entries (foldl (add_tab hostname) [] tabs))"

text \<open>\<^verbatim>\<open>computeClusters\<close> returns the fallback grouping at once; the flag says whether it
  started \<^verbatim>\<open>updateAIClusters\<close> on the way (it does for every non-empty list).\<close>

definition computeClusters ::
  "(string \<Rightarrow> string option) \<Rightarrow> tab list \<Rightarrow> cluster list \<times> bool" where
  "computeClusters hostname storedTabs =
     (if length storedTabs = 0 then ([], False)
      else (simpleGroupByDomain hostname storedTabs, True))"

text \<open>The property of \<^verbatim>\<open>domainGroups\<close> a tab is pushed to, read off \<open>add_tab\<close>.\<close>

definition bucket :: "(string \<Rightarrow> string option) \<Rightarrow> tab \<Rightarrow> string" where
  "bucket hostname t =
     (case hostname (tab_url t) of
        None \<Rightarrow> ''Other''
      | Some domain \<Rightarrow> if domain \<in> set object_prototype_keys then ''Other'' else domain)"

text \<open>A host parser for the examples: the text between \<^verbatim>\<open>http://\<close> or \<^verbatim>\<open>https://\<close> and the
  next slash. On the URLs of the examples it gives what \<^verbatim>\<open>URL.hostname\<close> gives.\<close>

definition host_part :: "string \<Rightarrow> string option" where
  "host_part r =
     (let h = takeWhile (\<lambda>c. c \<noteq> CHR ''/'') r in if h = [] then None else Some h)"

definition simple_hostname :: "string \<Rightarrow> string option" where
  "simple_hostname u =
     (if take 7 u = ''http://'' then host_part (drop 7 u)
      else if take 8 u = ''https://'' then host_part (drop 8 u)
      else None)"

subsection \<open>\<^verbatim>\<open>categorizeTabs\<close>: the classifier's response\<close>

text \<open>
  The response text after \<^verbatim>\<open>JSON.parse\<close>: \<open>Unparsable\<close> makes the parse throw,
  \<open>NoClusters\<close> has no \<^verbatim>\<open>clusters\<close> array, \<open>ApiFailure\<close> is a request that threw. A returned
  cluster may lack any of its properties. An index is an integer; \<^verbatim>\<open>tabs[index]\<close> is
  \<^verbatim>\<open>undefined\<close> outside \<open>0 \<dots> length - 1\<close>. \<^verbatim>\<open>toLowerCase\<close> is modelled on ASCII letters.
\<close>

record raw_cluster =
  raw_name :: "string option"
  raw_tabs :: "int list option"
  raw_theme :: "string option"

datatype response = ApiFailure | Unparsable | NoClusters | Clusters "raw_cluster list"

datatype ai_error = NotInitialized | GeminiError | SyntaxError | InvalidStructure | TypeError

definition toLowerCase :: "string \<Rightarrow> string" where
  "toLowerCase str =
     map (\<lambda>c. case map_of (zip ''ABCDEFGHIJKLMNOPQRSTUVWXYZ'' ''abcdefghijklmnopqrstuvwxyz'') c of
                 None \<Rightarrow> c
               | Some l \<Rightarrow> l) str"

text \<open>\<^verbatim>\<open>cluster.tabs.map(index => tabs[index]).filter(tab => tab !== undefined)\<close>\<close>

definition resolve :: "tab list \<Rightarrow> int list \<Rightarrow> tab list" where
  "resolve tabs indices =
     map (\<lambda>i. tabs ! nat i) (filter (\<lambda>i. 0 \<le> i \<and> i < int (length tabs)) indices)"

text \<open>One step of \<^verbatim>\<open>parsed.clusters.map\<close>. \<^verbatim>\<open>cluster.tabs.map\<close> throws when \<^verbatim>\<open>tabs\<close> is
  missing; \<^verbatim>\<open>cluster.theme || ...\<close> takes the default when the theme is missing or empty,
  and the default reads \<^verbatim>\<open>cluster.name.toLowerCase()\<close>, which throws when the name is
  missing.\<close>

definition convert :: "tab list \<Rightarrow> raw_cluster \<Rightarrow> ai_error + cluster" where
  "convert tabs c =
     (case raw_tabs c of
        None \<Rightarrow> Inl TypeError
      | Some indices \<Rightarrow>
          if raw_theme c = None \<or> raw_theme c = Some []
          then (case raw_name c of
                  None \<Rightarrow> Inl TypeError
                | Some n \<Rightarrow>
                    Inr \<lparr>cluster_name = Some n, cluster_tabs = resolve tabs indices,
                         cluster_theme = ''Collection of '' @ toLowerCase n @ '' content''\<rparr>)
          else (case raw_theme c of
                  None \<Rightarrow> Inl TypeError
                | Some th \<Rightarrow>
                    Inr \<lparr>cluster_name = raw_name c, cluster_tabs = resolve tabs indices,
                         cluster_theme = th\<rparr>))"

fun convert_all :: "tab list \<Rightarrow> raw_cluster list \<Rightarrow> ai_error + cluster list" where
  "convert_all tabs [] = Inr []"
| "convert_all tabs (c # cs) =
     (case convert tabs c of
        Inl e \<Rightarrow> Inl e
      | Inr x \<Rightarrow>
          (case convert_all tabs cs of
             Inl e \<Rightarrow> Inl e
           | Inr xs \<Rightarrow> Inr (x # xs)))"

definition categorizeTabs :: "bool \<Rightarrow> tab list \<Rightarrow> response \<Rightarrow> ai_error + cluster list" where
  "categorizeTabs isAIInitialized tabs resp =
     (if \<not> isAIInitialized then Inl NotInitialized
      else (case resp of
              ApiFailure \<Rightarrow> Inl GeminiError
            | Unparsable \<Rightarrow> Inl SyntaxError
            | NoClusters \<Rightarrow> Inl InvalidStructure
            | Clusters cs \<Rightarrow>
                (case convert_all tabs cs of
                   Inl e \<Rightarrow> Inl e
                 | Inr xs \<Rightarrow> Inr (filter (\<lambda>c. length (cluster_tabs c) > 0) xs))))"

text \<open>All indices a response returns, in order.\<close>

definition returned_indices :: "raw_cluster list \<Rightarrow> int list" where
  "returned_indices cs =
     concat (map (\<lambda>c. case raw_tabs c of None \<Rightarrow> [] | Some indices \<Rightarrow> indices) cs)"

text \<open>
  What \<^verbatim>\<open>categorizeTabs\<close> makes of a response, said without the loop. A returned cluster
  is usable when it has a \<^verbatim>\<open>tabs\<close> array and either a name or a non-empty theme; a response
  is accepted when the classifier is initialised, the response has a \<^verbatim>\<open>clusters\<close> array and
  every cluster in it is usable. \<open>with_tabs\<close> is a returned cluster with its indices
  replaced by tabs: the name as returned, the tabs at the in-range indices in the order
  listed, the theme as returned or, when it is missing or empty, the default built from
  the name.
\<close>

definition indices_of :: "raw_cluster \<Rightarrow> int list" where
  "indices_of c = (case raw_tabs c of None \<Rightarrow> [] | Some indices \<Rightarrow> indices)"

definition usable :: "raw_cluster \<Rightarrow> bool" where
  "usable c =
     (raw_tabs c \<noteq> None \<and>
      (raw_name c \<noteq> None \<or> (raw_theme c \<noteq> None \<and> raw_theme c \<noteq> Some [])))"

definition accepted :: "bool \<Rightarrow> response \<Rightarrow> bool" where
  "accepted isAIInitialized resp =
     (isAIInitialized \<and>
      (case resp of Clusters rcs \<Rightarrow> list_all usable rcs | _ \<Rightarrow> False))"

definition returned_clusters :: "response \<Rightarrow> raw_cluster list" where
  "returned_clusters resp = (case resp of Clusters rcs \<Rightarrow> rcs | _ \<Rightarrow> [])"

definition theme_of :: "raw_cluster \<Rightarrow> string" where
  "theme_of c =
     (case raw_theme c of
        Some (x # th) \<Rightarrow> x # th
      | _ \<Rightarrow> ''Collection of '' @
               toLowerCase (case raw_name c of None \<Rightarrow> [] | Some n \<Rightarrow> n) @ '' content'')"

definition with_tabs :: "tab list \<Rightarrow> raw_cluster \<Rightarrow> cluster" where
  "with_tabs tabs c =
     \<lparr>cluster_name = raw_name c, cluster_tabs = resolve tabs (indices_of c),
      cluster_theme = theme_of c\<rparr>"

subsection \<open>\<^verbatim>\<open>handleTabsCategorized\<close> and \<^verbatim>\<open>updateAIClusters\<close>: publishing\<close>

record storage =
  st_sharedTabs :: "tab list"
  aiClusters :: "cluster list"

record categorized =
  cat_error :: "string option"
  cat_clusters :: "cluster list option"

definition handleTabsCategorized :: "categorized \<Rightarrow> storage \<Rightarrow> storage" where
  "handleTabsCategorized data st =
     (if cat_error data \<noteq> None \<and> cat_error data \<noteq> Some [] then st
      else (case cat_clusters data of
              None \<Rightarrow> st
            | Some cs \<Rightarrow> st\<lparr>aiClusters := cs\<rparr>))"

text \<open>
  \<^verbatim>\<open>updateAIClusters\<close> reads the stored tabs, sends them to the offscreen document and
  waits. \<open>response_arrives\<close> is what it does when the answer to a request sent with the
  tabs \<open>requested\<close> comes back: a cluster list goes to \<^verbatim>\<open>handleTabsCategorized\<close>; an error
  is thrown and caught, and the \<^verbatim>\<open>catch\<close> block publishes the fallback grouping of the tabs
  stored at that moment. Requests carry no identifier and the handler compares nothing.
  (The offscreen document also posts the same cluster list as a \<^verbatim>\<open>tabs-categorized\<close>
  message, which ends in the same \<^verbatim>\<open>handleTabsCategorized\<close>.)
\<close>

definition response_arrives ::
  "(string \<Rightarrow> string option) \<Rightarrow> bool \<Rightarrow> tab list \<Rightarrow> response \<Rightarrow> storage \<Rightarrow> storage" where
  "response_arrives hostname isAIInitialized requested resp st =
     (case categorizeTabs isAIInitialized requested resp of
        Inr cs \<Rightarrow> handleTabsCategorized \<lparr>cat_error = None, cat_clusters = Some cs\<rparr> st
      | Inl e \<Rightarrow> st\<lparr>aiClusters := simpleGroupByDomain hostname (st_sharedTabs st)\<rparr>)"

text \<open>The partition published for a tab set once its classification request is answered:
  the tabs are stored, \<^verbatim>\<open>computeClusters\<close> has published the fallback, the answer
  arrives.\<close>

definition published ::
  "(string \<Rightarrow> string option) \<Rightarrow> bool \<Rightarrow> tab list \<Rightarrow> response \<Rightarrow> cluster list" where
  "published hostname isAIInitialized tabs resp =
     aiClusters (response_arrives hostname isAIInitialized tabs resp
       \<lparr>st_sharedTabs = tabs, aiClusters = fst (computeClusters hostname tabs)\<rparr>)"

text \<open>Tabs and responses for the examples.\<close>

definition tab_a :: tab where
  "tab_a = \<lparr>tab_title = ''Alpha'', tab_url = ''https://a.example/docs'', tab_groupId = ''g'',
            tab_timestamp = 1\<rparr>"

definition tab_b :: tab where
  "tab_b = \<lparr>tab_title = ''Beta'', tab_url = ''https://b.example/x'', tab_groupId = ''g'',
            tab_timestamp = 2\<rparr>"

definition tab_ctor :: tab where
  "tab_ctor = \<lparr>tab_title = ''Intranet'', tab_url = ''http://constructor/'', tab_groupId = ''g'',
               tab_timestamp = 3\<rparr>"

definition resp_first_only :: response where
  "resp_first_only =
     Clusters [\<lparr>raw_name = Some ''Dev'', raw_tabs = Some [0, 5], raw_theme = None\<rparr>]"

definition resp_both :: response where
  "resp_both =
     Clusters [\<lparr>raw_name = Some ''Reading'', raw_tabs = Some [1, 0], raw_theme = Some ''Both''\<rparr>]"

text \<open>Three clusters for two tabs: the first returns index 1 and an index out of range,
  the second only indices out of range, the third has no name. And a response whose second
  cluster has no \<^verbatim>\<open>tabs\<close> array.\<close>

definition resp_three :: response where
  "resp_three =
     Clusters [\<lparr>raw_name = Some ''Dev'', raw_tabs = Some [1, 9], raw_theme = None\<rparr>,
               \<lparr>raw_name = Some ''Empty'', raw_tabs = Some [7, -1], raw_theme = Some ''Nothing''\<rparr>,
               \<lparr>raw_name = None, raw_tabs = Some [0], raw_theme = Some ''Docs''\<rparr>]"

definition resp_no_tabs :: response where
  "resp_no_tabs =
     Clusters [\<lparr>raw_name = Some ''Dev'', raw_tabs = Some [0, 1], raw_theme = None\<rparr>,
               \<lparr>raw_name = Some ''Broken'', raw_tabs = None, raw_theme = None\<rparr>]"


section \<open>Properties of the relay server\<close>

lemma outbox_irrelevant [simp]:
  "is_member (s\<lparr>outbox := ob\<rparr>) = is_member s"
  "has_joined (s\<lparr>outbox := ob\<rparr>) = has_joined s"
  by (auto simp: is_member_def has_joined_def fun_eq_iff)

lemma broadcast_groups [simp]: "groups (broadcastToGroup g m ex s) = groups s"
  by (simp add: broadcastToGroup_def split: option.splits)

lemma broadcast_clients [simp]: "clients (broadcastToGroup g m ex s) = clients s"
  by (simp add: broadcastToGroup_def split: option.splits)

lemma ws_send_groups [simp]: "groups (ws_send cl c m s) = groups s"
  by (simp add: ws_send_def)

lemma ws_send_clients [simp]: "clients (ws_send cl c m s) = clients s"
  by (simp add: ws_send_def)

lemma set_set_add [simp]: "set (set_add x xs) = insert x (set xs)"
  by (auto simp: set_add_def)

lemma set_set_delete [simp]: "set (set_delete x xs) = set xs - {x}"
  by (auto simp: set_delete_def)

lemma set_delete_Nil: "(set_delete x xs = []) = (set xs \<subseteq> {x})"
  by (induction xs) (auto simp: set_delete_def)

lemma distinct_set_add [simp]: "distinct (set_add x xs) = distinct xs"
  by (auto simp: set_add_def)

lemma distinct_set_delete [simp]: "distinct xs \<Longrightarrow> distinct (set_delete x xs)"
  by (simp add: set_delete_def distinct_removeAll)

lemma join_groups:
  "map_of (clients s) c = Some cl \<Longrightarrow>
   groups (handleJoinGroup c g t s) =
     AList.update g
       ((case map_of (groups s) g of None \<Rightarrow> new_group g t | Some grp \<Rightarrow> grp)
          \<lparr>members := set_add c (members (case map_of (groups s) g of
                                            None \<Rightarrow> new_group g t | Some grp \<Rightarrow> grp))\<rparr>)
       (groups s)"
  by (simp add: handleJoinGroup_def Let_def)

lemma join_clients:
  "map_of (clients s) c = Some cl \<Longrightarrow>
   clients (handleJoinGroup c g t s) =
     AList.update c (cl\<lparr>cgroups := set_add g (cgroups cl)\<rparr>) (clients s)"
  by (simp add: handleJoinGroup_def Let_def)

lemma is_member_join:
  "map_of (clients s) c = Some cl \<Longrightarrow>
   is_member (handleJoinGroup c g t s) c' g' = ((c' = c \<and> g' = g) \<or> is_member s c' g')"
  by (auto simp: is_member_def join_groups update_conv' new_group_def split: option.splits)

lemma has_joined_join:
  "map_of (clients s) c = Some cl \<Longrightarrow>
   has_joined (handleJoinGroup c g t s) c' g' = ((c' = c \<and> g' = g) \<or> has_joined s c' g')"
  by (auto simp: has_joined_def join_clients update_conv' split: option.splits)

lemma leave_groups:
  "map_of (clients s) c = Some cl \<Longrightarrow> map_of (groups s) g = Some grp \<Longrightarrow>
   groups (handleLeaveGroup c g s) =
     (if set_delete c (members grp) = [] then AList.delete g (groups s)
      else AList.update g (grp\<lparr>members := set_delete c (members grp)\<rparr>) (groups s))"
  by (simp add: handleLeaveGroup_def Let_def delete_update_same)

lemma leave_clients:
  "map_of (clients s) c = Some cl \<Longrightarrow> map_of (groups s) g = Some grp \<Longrightarrow>
   clients (handleLeaveGroup c g s) =
     AList.update c (cl\<lparr>cgroups := set_delete g (cgroups cl)\<rparr>) (clients s)"
  by (simp add: handleLeaveGroup_def Let_def)

lemma leave_noop:
  "map_of (clients s) c = None \<or> map_of (groups s) g = None \<Longrightarrow> handleLeaveGroup c g s = s"
  by (auto simp: handleLeaveGroup_def split: option.splits)

lemma is_member_leave:
  "map_of (clients s) c = Some cl \<Longrightarrow> map_of (groups s) g = Some grp \<Longrightarrow>
   is_member (handleLeaveGroup c g s) c' g' = (is_member s c' g' \<and> \<not> (c' = c \<and> g' = g))"
  by (auto simp: is_member_def leave_groups update_conv' delete_conv' set_delete_Nil
      split: option.splits if_splits)

lemma has_joined_leave:
  "map_of (clients s) c = Some cl \<Longrightarrow> map_of (groups s) g = Some grp \<Longrightarrow>
   has_joined (handleLeaveGroup c g s) c' g' = (has_joined s c' g' \<and> \<not> (c' = c \<and> g' = g))"
  by (auto simp: has_joined_def leave_clients update_conv' split: option.splits)

lemma symmetric_join: "symmetric s \<Longrightarrow> symmetric (handleJoinGroup c g t s)"
proof (cases "map_of (clients s) c")
  case None
  then show "symmetric s \<Longrightarrow> symmetric (handleJoinGroup c g t s)"
    by (simp add: handleJoinGroup_def)
next
  case (Some cl)
  then show "symmetric s \<Longrightarrow> symmetric (handleJoinGroup c g t s)"
    by (simp add: symmetric_def is_member_join has_joined_join)
qed

lemma symmetric_leave: "symmetric s \<Longrightarrow> symmetric (handleLeaveGroup c g s)"
proof (cases "map_of (clients s) c = None \<or> map_of (groups s) g = None")
  case True
  then show "symmetric s \<Longrightarrow> symmetric (handleLeaveGroup c g s)"
    by (simp add: leave_noop)
next
  case False
  then obtain cl grp where "map_of (clients s) c = Some cl" "map_of (groups s) g = Some grp"
    by auto
  then show "symmetric s \<Longrightarrow> symmetric (handleLeaveGroup c g s)"
    by (simp add: symmetric_def is_member_leave has_joined_leave)
qed


lemma has_joined_leave_sym:
  assumes "symmetric s"
  shows "has_joined (handleLeaveGroup c g s) c' g' = (has_joined s c' g' \<and> \<not> (c' = c \<and> g' = g))"
proof (cases "map_of (clients s) c = None \<or> map_of (groups s) g = None")
  case True
  have "\<not> has_joined s c g"
  proof (cases "map_of (clients s) c")
    case None
    then show ?thesis by (simp add: has_joined_def)
  next
    case (Some cl)
    with True have "map_of (groups s) g = None" by simp
    then have "\<not> is_member s c g" by (simp add: is_member_def)
    with assms show ?thesis by (simp add: symmetric_def)
  qed
  with True show ?thesis by (auto simp: leave_noop)
next
  case False
  then obtain cl grp where "map_of (clients s) c = Some cl" "map_of (groups s) g = Some grp"
    by auto
  then show ?thesis by (simp add: has_joined_leave)
qed

lemma leave_all_symmetric:
  "symmetric s \<Longrightarrow>
   symmetric (foldl (\<lambda>s' g. handleLeaveGroup c g s') s gs) \<and>
   (\<forall>c' g'. has_joined (foldl (\<lambda>s' g. handleLeaveGroup c g s') s gs) c' g' =
             (has_joined s c' g' \<and> \<not> (c' = c \<and> g' \<in> set gs)))"
proof (induction gs arbitrary: s)
  case Nil
  then show ?case by simp
next
  case (Cons g gs)
  have sym: "symmetric (handleLeaveGroup c g s)"
    using Cons.prems by (rule symmetric_leave)
  show ?case
    using Cons.IH [OF sym] by (auto simp: has_joined_leave_sym [OF Cons.prems])
qed

lemma symmetric_disconnect: "symmetric s \<Longrightarrow> symmetric (handleClientDisconnect c s)"
proof (cases "map_of (clients s) c")
  case None
  then show "symmetric s \<Longrightarrow> symmetric (handleClientDisconnect c s)"
    by (simp add: handleClientDisconnect_def)
next
  case (Some cl)
  assume sym: "symmetric s"
  define s1 where "s1 = foldl (\<lambda>s' g. handleLeaveGroup c g s') s (cgroups cl)"
  have s1: "symmetric s1"
    and hj: "\<And>c' g'. has_joined s1 c' g' = (has_joined s c' g' \<and> \<not> (c' = c \<and> g' \<in> set (cgroups cl)))"
    using leave_all_symmetric [OF sym, of c "cgroups cl"] by (simp_all add: s1_def)
  have gone: "\<not> has_joined s1 c g'" for g'
    using Some by (simp add: hj) (simp add: has_joined_def)
  have res: "handleClientDisconnect c s = s1\<lparr>clients := AList.delete c (clients s1)\<rparr>"
    using Some by (simp add: handleClientDisconnect_def s1_def Let_def)
  have "is_member (handleClientDisconnect c s) c' g' = has_joined (handleClientDisconnect c s) c' g'"
    for c' g'
  proof -
    have "is_member (handleClientDisconnect c s) c' g' = is_member s1 c' g'"
      by (simp add: res is_member_def)
    also have "\<dots> = has_joined s1 c' g'"
      using s1 by (simp add: symmetric_def)
    also have "\<dots> = has_joined (handleClientDisconnect c s) c' g'"
      using gone [of g'] by (auto simp: res has_joined_def delete_conv')
    finally show ?thesis .
  qed
  then show "symmetric (handleClientDisconnect c s)"
    by (simp add: symmetric_def)
qed


lemma registry_ok_iff: "registry_ok s = (tidy s \<and> symmetric s)"
proof
  assume ok: "registry_ok s"
  then have dg: "distinct (map fst (groups s))" and dc: "distinct (map fst (clients s))"
    by (simp_all add: registry_ok_def)
  have g: "map_of (groups s) g = Some grp \<Longrightarrow>
      distinct (members grp) \<and> members grp \<noteq> [] \<and> (\<forall>c \<in> set (members grp). has_joined s c g)"
    for g grp
    using ok map_of_SomeD [of "groups s" g grp] by (auto simp: registry_ok_def)
  have c: "map_of (clients s) c = Some cl \<Longrightarrow>
      distinct (cgroups cl) \<and> (\<forall>g \<in> set (cgroups cl). is_member s c g)"
    for c cl
    using ok map_of_SomeD [of "clients s" c cl] by (auto simp: registry_ok_def)
  have "is_member s c g = has_joined s c g" for c g
  proof
    assume "is_member s c g"
    then show "has_joined s c g"
      using g by (auto simp: is_member_def split: option.splits)
  next
    assume "has_joined s c g"
    then show "is_member s c g"
      using c by (auto simp: has_joined_def split: option.splits)
  qed
  then show "tidy s \<and> symmetric s"
    using dg dc g c by (simp add: tidy_def symmetric_def)
next
  assume ts: "tidy s \<and> symmetric s"
  then have dg: "distinct (map fst (groups s))" and dc: "distinct (map fst (clients s))"
    by (simp_all add: tidy_def)
  have sym: "is_member s c g = has_joined s c g" for c g
    using ts by (simp add: symmetric_def)
  have g: "distinct (members grp) \<and> members grp \<noteq> [] \<and> (\<forall>c \<in> set (members grp). has_joined s c g)"
    if "(g, grp) \<in> set (groups s)" for g grp
  proof -
    have m: "map_of (groups s) g = Some grp"
      using that dg by simp
    then have "\<forall>c \<in> set (members grp). is_member s c g"
      by (simp add: is_member_def)
    then show ?thesis
      using m ts by (simp add: sym tidy_def)
  qed
  have c: "distinct (cgroups cl) \<and> (\<forall>g \<in> set (cgroups cl). is_member s c g)"
    if "(c, cl) \<in> set (clients s)" for c cl
  proof -
    have m: "map_of (clients s) c = Some cl"
      using that dc by simp
    then have "\<forall>g \<in> set (cgroups cl). has_joined s c g"
      by (simp add: has_joined_def)
    then show ?thesis
      using m ts by (simp add: sym tidy_def)
  qed
  show "registry_ok s"
    using dg dc g c by (auto simp: registry_ok_def)
qed

lemma tidy_groupD:
  "tidy s \<Longrightarrow> map_of (groups s) g = Some grp \<Longrightarrow> distinct (members grp) \<and> members grp \<noteq> []"
  by (simp add: tidy_def)

lemma tidy_clientD: "tidy s \<Longrightarrow> map_of (clients s) c = Some cl \<Longrightarrow> distinct (cgroups cl)"
  by (simp add: tidy_def)

lemma tidy_keysD: "tidy s \<Longrightarrow> distinct (map fst (groups s)) \<and> distinct (map fst (clients s))"
  by (simp add: tidy_def)

lemma tidyI:
  assumes "distinct (map fst (groups s))" and "distinct (map fst (clients s))"
    and "\<And>g grp. map_of (groups s) g = Some grp \<Longrightarrow> distinct (members grp) \<and> members grp \<noteq> []"
    and "\<And>c cl. map_of (clients s) c = Some cl \<Longrightarrow> distinct (cgroups cl)"
  shows "tidy s"
  using assms unfolding tidy_def by blast

lemma tidy_join: "tidy s \<Longrightarrow> tidy (handleJoinGroup c g t s)"
proof (cases "map_of (clients s) c")
  case None
  then show "tidy s \<Longrightarrow> tidy (handleJoinGroup c g t s)"
    by (simp add: handleJoinGroup_def)
next
  case (Some cl)
  assume t: "tidy s"
  let ?s' = "handleJoinGroup c g t s"
  show "tidy ?s'"
  proof (rule tidyI)
    show "distinct (map fst (groups ?s'))"
      using tidy_keysD [OF t] by (simp add: join_groups [OF Some] distinct_update)
    show "distinct (map fst (clients ?s'))"
      using tidy_keysD [OF t] by (simp add: join_clients [OF Some] distinct_update)
    show "distinct (members grp') \<and> members grp' \<noteq> []"
      if "map_of (groups ?s') g' = Some grp'" for g' grp'
      using that tidy_groupD [OF t]
      by (auto simp: join_groups [OF Some] update_conv' new_group_def set_add_def
            split: option.splits if_splits)
    show "distinct (cgroups cl')" if "map_of (clients ?s') c' = Some cl'" for c' cl'
      using that tidy_clientD [OF t] Some
      by (auto simp: join_clients [OF Some] update_conv' split: if_splits)
  qed
qed

lemma tidy_leave: "tidy s \<Longrightarrow> tidy (handleLeaveGroup c g s)"
proof (cases "map_of (clients s) c = None \<or> map_of (groups s) g = None")
  case True
  then show "tidy s \<Longrightarrow> tidy (handleLeaveGroup c g s)"
    by (simp add: leave_noop)
next
  case False
  then obtain cl grp where cl: "map_of (clients s) c = Some cl"
    and grp: "map_of (groups s) g = Some grp"
    by auto
  assume t: "tidy s"
  let ?s' = "handleLeaveGroup c g s"
  show "tidy ?s'"
  proof (rule tidyI)
    show "distinct (map fst (groups ?s'))"
      using tidy_keysD [OF t]
      by (simp add: leave_groups [OF cl grp] distinct_update distinct_delete)
    show "distinct (map fst (clients ?s'))"
      using tidy_keysD [OF t] by (simp add: leave_clients [OF cl grp] distinct_update)
    show "distinct (members grp') \<and> members grp' \<noteq> []"
      if "map_of (groups ?s') g' = Some grp'" for g' grp'
      using that tidy_groupD [OF t] grp
      by (auto simp: leave_groups [OF cl grp] update_conv' delete_conv' split: if_splits)
    show "distinct (cgroups cl')" if "map_of (clients ?s') c' = Some cl'" for c' cl'
      using that tidy_clientD [OF t] cl
      by (auto simp: leave_clients [OF cl grp] update_conv' split: if_splits)
  qed
qed

lemma tidy_leave_all: "tidy s \<Longrightarrow> tidy (foldl (\<lambda>s' g. handleLeaveGroup c g s') s gs)"
  by (induction gs arbitrary: s) (simp_all add: tidy_leave)

lemma tidy_disconnect: "tidy s \<Longrightarrow> tidy (handleClientDisconnect c s)"
proof (cases "map_of (clients s) c")
  case None
  then show "tidy s \<Longrightarrow> tidy (handleClientDisconnect c s)"
    by (simp add: handleClientDisconnect_def)
next
  case (Some cl)
  assume "tidy s"
  then have t: "tidy (foldl (\<lambda>s' g. handleLeaveGroup c g s') s (cgroups cl))"
    (is "tidy ?s1")
    by (rule tidy_leave_all)
  have res: "handleClientDisconnect c s = ?s1\<lparr>clients := AList.delete c (clients ?s1)\<rparr>"
    using Some by (simp add: handleClientDisconnect_def Let_def)
  show "tidy (handleClientDisconnect c s)"
    unfolding res
  proof (rule tidyI)
    show "distinct (map fst (groups (?s1\<lparr>clients := AList.delete c (clients ?s1)\<rparr>)))"
      using tidy_keysD [OF t] by simp
    show "distinct (map fst (clients (?s1\<lparr>clients := AList.delete c (clients ?s1)\<rparr>)))"
      using tidy_keysD [OF t] by (simp add: distinct_delete)
    show "distinct (members grp') \<and> members grp' \<noteq> []"
      if "map_of (groups (?s1\<lparr>clients := AList.delete c (clients ?s1)\<rparr>)) g' = Some grp'"
      for g' grp'
      using that tidy_groupD [OF t] by simp
    show "distinct (cgroups cl')"
      if "map_of (clients (?s1\<lparr>clients := AList.delete c (clients ?s1)\<rparr>)) c' = Some cl'"
      for c' cl'
      using that tidy_clientD [OF t] by (auto simp: delete_conv' split: if_splits)
  qed
qed

lemma registry_ok_join: "registry_ok s \<Longrightarrow> registry_ok (handleJoinGroup c g t s)"
  by (simp add: registry_ok_iff tidy_join symmetric_join)

lemma registry_ok_leave: "registry_ok s \<Longrightarrow> registry_ok (handleLeaveGroup c g s)"
  by (simp add: registry_ok_iff tidy_leave symmetric_leave)

lemma registry_ok_disconnect: "registry_ok s \<Longrightarrow> registry_ok (handleClientDisconnect c s)"
  by (simp add: registry_ok_iff tidy_disconnect symmetric_disconnect)

lemma map_of_mview: "map_of (mview s) g = map_option members (map_of (groups s) g)"
  by (simp add: mview_def map_of_map)

lemma map_of_cview: "map_of (cview s) c = map_option cgroups (map_of (clients s) c)"
  by (simp add: cview_def map_of_map)

lemma keys_mview: "map fst (mview s) = map fst (groups s)"
  by (simp add: mview_def split_def comp_def)

lemma keys_cview: "map fst (cview s) = map fst (clients s)"
  by (simp add: cview_def split_def comp_def)

lemma is_member_mview:
  "is_member s c g = (case map_of (mview s) g of None \<Rightarrow> False | Some ms \<Rightarrow> c \<in> set ms)"
  by (simp add: is_member_def map_of_mview split: option.splits)

lemma has_joined_cview:
  "has_joined s c g = (case map_of (cview s) c of None \<Rightarrow> False | Some gs \<Rightarrow> g \<in> set gs)"
  by (simp add: has_joined_def map_of_cview split: option.splits)

lemma tidy_views:
  "tidy s =
     (distinct (map fst (mview s)) \<and> distinct (map fst (cview s)) \<and>
      (\<forall>g ms. map_of (mview s) g = Some ms \<longrightarrow> distinct ms \<and> ms \<noteq> []) \<and>
      (\<forall>c gs. map_of (cview s) c = Some gs \<longrightarrow> distinct gs))"
proof -
  have g: "(\<forall>g grp. map_of (groups s) g = Some grp \<longrightarrow> distinct (members grp) \<and> members grp \<noteq> []) =
           (\<forall>g ms. map_of (mview s) g = Some ms \<longrightarrow> distinct ms \<and> ms \<noteq> [])"
    unfolding map_of_mview map_option_eq_Some by blast
  have c: "(\<forall>c cl. map_of (clients s) c = Some cl \<longrightarrow> distinct (cgroups cl)) =
           (\<forall>c gs. map_of (cview s) c = Some gs \<longrightarrow> distinct gs)"
    unfolding map_of_cview map_option_eq_Some by blast
  show ?thesis
    unfolding tidy_def keys_mview keys_cview g c ..
qed

lemma registry_ok_cong:
  assumes "mview s' = mview s" and "cview s' = cview s"
  shows "registry_ok s' = registry_ok s"
proof -
  have "tidy s' = tidy s"
    by (simp add: tidy_views assms)
  moreover have "symmetric s' = symmetric s"
    by (simp add: symmetric_def is_member_mview has_joined_cview assms)
  ultimately show ?thesis
    by (simp add: registry_ok_iff)
qed

lemma map_update_same:
  "map_of al k = Some v \<Longrightarrow> h v' = h v \<Longrightarrow>
   map (\<lambda>(k, x). (k, h x)) (AList.update k v' al) = map (\<lambda>(k, x). (k, h x)) al"
  by (induction al) (auto split: if_splits)

lemma mview_update:
  "map_of (groups s) g = Some grp \<Longrightarrow> members grp' = members grp \<Longrightarrow>
   mview (s\<lparr>groups := AList.update g grp' (groups s)\<rparr>) = mview s"
  by (simp add: mview_def map_update_same)

lemma cview_update:
  "map_of (clients s) c = Some cl \<Longrightarrow> cgroups cl' = cgroups cl \<Longrightarrow>
   cview (s\<lparr>clients := AList.update c cl' (clients s)\<rparr>) = cview s"
  by (simp add: cview_def map_update_same)

lemma view_simps [simp]:
  "mview (s\<lparr>outbox := ob\<rparr>) = mview s" "cview (s\<lparr>outbox := ob\<rparr>) = cview s"
  "mview (s\<lparr>clients := cs\<rparr>) = mview s" "cview (s\<lparr>groups := gs\<rparr>) = cview s"
  by (simp_all add: mview_def cview_def)

lemma view_broadcast [simp]:
  "mview (broadcastToGroup g m ex s) = mview s" "cview (broadcastToGroup g m ex s) = cview s"
  by (simp_all add: mview_def cview_def)

lemma view_ws_send [simp]:
  "mview (ws_send cl c m s) = mview s" "cview (ws_send cl c m s) = cview s"
  by (simp_all add: mview_def cview_def)

lemma share_each_views:
  "mview (state_of (share_each c d t gs s)) = mview s \<and>
   clients (state_of (share_each c d t gs s)) = clients s"
proof (induction gs arbitrary: s)
  case Nil
  then show ?case by simp
next
  case (Cons g gs)
  show ?case
  proof (cases "map_of (groups s) g")
    case None
    then show ?thesis using Cons.IH by simp
  next
    case (Some grp)
    then show ?thesis
      using Cons.IH by (cases d) (simp_all add: Let_def mview_update)
  qed
qed

lemma share_views:
  "mview (state_of (handleShareTab c d t s)) = mview s \<and>
   clients (state_of (handleShareTab c d t s)) = clients s"
  by (simp add: handleShareTab_def share_each_views split: option.splits)

lemma annotate_each_views:
  "mview (annotate_each c d t gs s) = mview s \<and> clients (annotate_each c d t gs s) = clients s"
proof (induction gs arbitrary: s)
  case Nil
  then show ?case by simp
next
  case (Cons g gs)
  then show ?case
    by (cases "map_of (groups s) g") (simp_all add: Let_def mview_update)
qed

lemma annotate_views:
  "mview (handleAnnotation c d t s) = mview s \<and> clients (handleAnnotation c d t s) = clients s"
  by (simp add: handleAnnotation_def annotate_each_views split: option.splits)

lemma cluster_update_registries:
  "groups (handleClusterUpdate c d s) = groups s \<and> clients (handleClusterUpdate c d s) = clients s"
proof -
  have "groups (foldl (\<lambda>s' g. broadcastToGroup g m (Some c) s') s gs) = groups s \<and>
        clients (foldl (\<lambda>s' g. broadcastToGroup g m (Some c) s') s gs) = clients s"
    for m gs
    by (induction gs arbitrary: s) simp_all
  then show ?thesis
    by (simp add: handleClusterUpdate_def split: option.splits)
qed

lemma heartbeat_views:
  "groups (handleHeartbeat c t s) = groups s \<and> cview (handleHeartbeat c t s) = cview s"
  by (simp add: handleHeartbeat_def ws_send_def cview_def map_update_same split: option.splits)

lemma cview_clients: "clients s' = clients s \<Longrightarrow> cview s' = cview s"
  by (simp add: cview_def)

lemma mview_groups: "groups s' = groups s \<Longrightarrow> mview s' = mview s"
  by (simp add: mview_def)

lemma registry_ok_share: "registry_ok (state_of (handleShareTab c d t s)) = registry_ok s"
proof (rule registry_ok_cong)
  show "mview (state_of (handleShareTab c d t s)) = mview s"
    by (simp add: share_views)
  show "cview (state_of (handleShareTab c d t s)) = cview s"
    by (rule cview_clients) (simp add: share_views)
qed

lemma registry_ok_annotate: "registry_ok (handleAnnotation c d t s) = registry_ok s"
proof (rule registry_ok_cong)
  show "mview (handleAnnotation c d t s) = mview s"
    by (simp add: annotate_views)
  show "cview (handleAnnotation c d t s) = cview s"
    by (rule cview_clients) (simp add: annotate_views)
qed

lemma registry_ok_cluster: "registry_ok (handleClusterUpdate c d s) = registry_ok s"
proof (rule registry_ok_cong)
  show "mview (handleClusterUpdate c d s) = mview s"
    by (rule mview_groups) (simp add: cluster_update_registries)
  show "cview (handleClusterUpdate c d s) = cview s"
    by (rule cview_clients) (simp add: cluster_update_registries)
qed

lemma registry_ok_heartbeat: "registry_ok (handleHeartbeat c t s) = registry_ok s"
proof (rule registry_ok_cong)
  show "mview (handleHeartbeat c t s) = mview s"
    by (rule mview_groups) (simp add: heartbeat_views)
  show "cview (handleHeartbeat c t s) = cview s"
    by (simp add: heartbeat_views)
qed

lemma registry_ok_touch:
  "map_of (clients s) c = Some cl \<Longrightarrow>
   registry_ok (s\<lparr>clients := AList.update c (cl\<lparr>lastSeen := t\<rparr>) (clients s)\<rparr>) = registry_ok s"
  by (rule registry_ok_cong) (simp_all add: cview_update)

lemma registry_ok_handleMessage:
  "registry_ok s \<Longrightarrow> registry_ok (state_of (handleMessage c e t s))"
proof (cases "map_of (clients s) c")
  case None
  then show "registry_ok s \<Longrightarrow> registry_ok (state_of (handleMessage c e t s))"
    by (simp add: handleMessage_def)
next
  case (Some cl)
  assume "registry_ok s"
  then have "registry_ok (s\<lparr>clients := AList.update c (cl\<lparr>lastSeen := t\<rparr>) (clients s)\<rparr>)"
    by (simp add: registry_ok_touch [OF Some])
  then show "registry_ok (state_of (handleMessage c e t s))"
    using Some
    by (cases e)
      (simp_all add: handleMessage_def Let_def registry_ok_heartbeat registry_ok_join
         registry_ok_leave registry_ok_share registry_ok_annotate registry_ok_cluster)
qed

lemma registry_ok_on_message: "registry_ok s \<Longrightarrow> registry_ok (on_message c fr t s)"
  by (cases fr)
    (auto simp: on_message_def registry_ok_handleMessage registry_ok_touch split: option.splits)

lemma sweep_clients_ok_aux:
  "registry_ok s \<Longrightarrow>
   registry_ok (foldl (\<lambda>s' (c, cl). if P cl then handleClientDisconnect c s' else s') s xs)"
  by (induction xs arbitrary: s) (auto simp: registry_ok_disconnect)

lemma sweep_groups_ok: "registry_ok s \<Longrightarrow> sweep_groups t s = s"
proof -
  assume "registry_ok s"
  then have "\<forall>x \<in> set (groups s). members (snd x) \<noteq> []"
    by (auto simp: registry_ok_def)
  then have "filter (\<lambda>(g, grp). \<not> (length (members grp) = 0 \<and> t - created grp > 60 * 60 * 1000))
               (groups s) = groups s"
    by (auto simp: filter_id_conv)
  then show "sweep_groups t s = s"
    by (simp add: sweep_groups_def)
qed

lemma registry_ok_sweep: "registry_ok s \<Longrightarrow> registry_ok (sweep t s)"
proof -
  assume "registry_ok s"
  then have "registry_ok (sweep_clients t s)"
    unfolding sweep_clients_def by (rule sweep_clients_ok_aux)
  then show "registry_ok (sweep t s)"
    by (simp add: sweep_def sweep_groups_ok)
qed

lemma registry_ok_init: "registry_ok init"
  by (simp add: registry_ok_def init_def)

lemma registry_ok_connect:
  assumes ok: "registry_ok s" and fresh: "map_of (clients s) c = None"
  shows "registry_ok (connect c opn t s)"
proof -
  let ?s' = "connect c opn t s"
  have g: "groups ?s' = groups s"
    by (simp add: connect_def Let_def)
  have c: "clients ?s' = AList.update c \<lparr>ws_open = opn, cgroups = [], lastSeen = t\<rparr> (clients s)"
    by (simp add: connect_def Let_def)
  have ts: "tidy s" and sym: "symmetric s"
    using ok by (simp_all add: registry_ok_iff)
  have "tidy ?s'"
  proof (rule tidyI)
    show "distinct (map fst (groups ?s'))" "distinct (map fst (clients ?s'))"
      using tidy_keysD [OF ts] by (simp_all add: g c distinct_update)
    show "distinct (members grp') \<and> members grp' \<noteq> []"
      if "map_of (groups ?s') g' = Some grp'" for g' grp'
      using that tidy_groupD [OF ts] by (simp add: g)
    show "distinct (cgroups cl')" if "map_of (clients ?s') c' = Some cl'" for c' cl'
      using that tidy_clientD [OF ts] by (auto simp: c update_conv' split: if_splits)
  qed
  moreover have "symmetric ?s'"
  proof -
    have "\<not> has_joined s c g'" for g'
      using fresh by (simp add: has_joined_def)
    then have "\<not> is_member s c g'" for g'
      using sym by (simp add: symmetric_def)
    then have "is_member ?s' c' g' = has_joined ?s' c' g'" for c' g'
      using sym
      by (auto simp: symmetric_def is_member_def has_joined_def g c update_conv'
            split: option.splits)
    then show ?thesis
      by (simp add: symmetric_def)
  qed
  ultimately show ?thesis
    by (simp add: registry_ok_iff)
qed

text \<open>Every state the server reaches from its start has the registry shape.\<close>

lemma registry_ok_step:
  "registry_ok s \<Longrightarrow> fresh_ids [e] s \<Longrightarrow> registry_ok (step e s)"
  by (cases e)
    (simp_all add: registry_ok_connect registry_ok_on_message registry_ok_disconnect
       registry_ok_sweep)

lemma registry_ok_run: "registry_ok s \<Longrightarrow> fresh_ids es s \<Longrightarrow> registry_ok (run es s)"
proof (induction es arbitrary: s)
  case Nil
  then show ?case by simp
next
  case (Cons e es)
  have "registry_ok (step e s)"
    using Cons.prems by (intro registry_ok_step) simp_all
  then show ?case
    using Cons.IH Cons.prems by simp
qed

lemma reachable_ok: "fresh_ids es init \<Longrightarrow> registry_ok (run es init)"
  using registry_ok_init by (rule registry_ok_run)

lemma broadcast_unknown_group:
  "map_of (groups s) g = None \<Longrightarrow> broadcastToGroup g m ex s = s"
  by (simp add: broadcastToGroup_def)

text \<open>
  Claim C9. An operation of the server on a connection identifier that is not registered,
  and a leave or a broadcast on a group identifier that is not registered, changes nothing:
  the state returned is the state given (both registries and everything sent so far), and
  the operation returns rather than throws.
\<close>

theorem unknown_ids_are_noops:
  "(map_of (clients s) c = None \<longrightarrow>
      handleMessage c e t s = Done s \<and>
      on_message c fr t s = s \<and>
      handleHeartbeat c t s = s \<and>
      handleJoinGroup c g t s = s \<and>
      handleLeaveGroup c g s = s \<and>
      handleShareTab c d t s = Done s \<and>
      handleAnnotation c d t s = s \<and>
      handleClusterUpdate c d s = s \<and>
      handleClientDisconnect c s = s) \<and>
   (map_of (groups s) g = None \<longrightarrow>
      handleLeaveGroup c g s = s \<and> broadcastToGroup g m ex s = s)"
  by (auto simp: handleMessage_def on_message_def handleHeartbeat_def handleJoinGroup_def
        handleLeaveGroup_def handleShareTab_def handleAnnotation_def handleClusterUpdate_def
        handleClientDisconnect_def broadcastToGroup_def
      split: option.splits frame.splits)

lemma demo_groups:
  "groups demo =
     [(''g'',
       \<lparr>group_id = ''g'', members = [''a'', ''b''],
          sharedTabs = [\<lparr>payload = Some ''tab'', sharedBy = ''a'', timestamp = 30\<rparr>],
          annotations = [], created = 10\<rparr>)]"
  by (simp add: demo_def init_def connect_def ws_send_def set_add_def handleJoinGroup_def
        new_group_def broadcastToGroup_def recipients_def handleShareTab_def Let_def)

lemma demo_clients:
  "clients demo =
     [(''a'', \<lparr>ws_open = True, cgroups = [''g''], lastSeen = 1\<rparr>),
      (''b'', \<lparr>ws_open = True, cgroups = [''g''], lastSeen = 2\<rparr>)]"
  by (simp add: demo_def init_def connect_def ws_send_def set_add_def handleJoinGroup_def
        new_group_def broadcastToGroup_def recipients_def handleShareTab_def Let_def)

text \<open>A share with an \<^verbatim>\<open>undefined\<close> payload throws after the first group; one with a
  payload returns.\<close>

lemma null_payload_throws:
  "handleShareTab ''a'' None 40 demo =
     Threw (state_of (handleShareTab ''a'' None 40 demo)) \<and>
   handleShareTab ''a'' (Some ''tab'') 40 demo =
     Done (state_of (handleShareTab ''a'' (Some ''tab'') 40 demo))"
  by (simp add: handleShareTab_def demo_clients demo_groups Let_def broadcastToGroup_def)

lemma symmetric_init: "symmetric init"
  by (simp add: symmetric_def is_member_def has_joined_def init_def)

lemma symmetric_demo: "symmetric demo"
  by (auto simp: symmetric_def is_member_def has_joined_def demo_groups demo_clients)

theorem unknown_ids_are_noops_witness:
  "map_of (clients demo) ''z'' = None \<and> map_of (groups demo) ''h'' = None \<and>
   handleMessage ''z'' (JoinGroup ''g'') 40 demo = Done demo \<and>
   handleShareTab ''z'' (Some ''tab'') 40 demo = Done demo \<and>
   handleClientDisconnect ''z'' demo = demo \<and>
   handleLeaveGroup ''a'' ''h'' demo = demo \<and>
   broadcastToGroup ''h'' Pong None demo = demo"
  using unknown_ids_are_noops [of demo "''z''" "JoinGroup ''g''" 40 Malformed "''h''"
          "Some ''tab''" Pong None]
    unknown_ids_are_noops [of demo "''a''" "JoinGroup ''g''" 40 Malformed "''h''"
          "Some ''tab''" Pong None]
  by (simp add: demo_groups demo_clients)

text \<open>
  Claim C6. Registry symmetry is kept by every sequence of join, leave and disconnect
  operations: started in a state where a connection is in a group's member set exactly
  when the group is in the connection's set of joined groups, the state after the
  sequence has the same property. The empty registry the server starts with has it.
\<close>

theorem registry_symmetry:
  "symmetric s \<Longrightarrow> symmetric (run_ops ops s)"
proof (induction ops arbitrary: s)
  case Nil
  then show ?case by simp
next
  case (Cons x xs)
  have "symmetric (apply_op x s)"
    using Cons.prems
    by (cases x) (simp_all add: symmetric_join symmetric_leave symmetric_disconnect)
  then show ?case
    using Cons.IH by simp
qed

theorem registry_symmetry_witness:
  "symmetric demo \<and>
   symmetric (run_ops [Leave ''a'' ''g'', Join ''b'' ''h'' 50, Join ''a'' ''g'' 60,
                       Disconnect ''b''] demo)"
  using symmetric_demo
    registry_symmetry [of demo "[Leave ''a'' ''g'', Join ''b'' ''h'' 50, Join ''a'' ''g'' 60,
                       Disconnect ''b'']"]
  by simp

text \<open>
  Claim C8. Joining is idempotent on the registries: when the connection is already a
  member of the group (it is in the group's member set and the group is in its set of
  joined groups), another join leaves the group registry (member sets, shared-tab
  histories, annotation logs) and the connection registry (sets of joined groups) as they
  were. Only the replies and the notification of the other members are sent again.
\<close>

theorem join_idempotent:
  "is_member s c g \<Longrightarrow> has_joined s c g \<Longrightarrow>
   groups (handleJoinGroup c g t s) = groups s \<and>
   clients (handleJoinGroup c g t s) = clients s"
  by (auto simp: is_member_def has_joined_def join_groups join_clients set_add_def
        update_triv split: option.splits)

theorem join_idempotent_witness:
  "is_member demo ''a'' ''g'' \<and> has_joined demo ''a'' ''g'' \<and>
   groups (handleJoinGroup ''a'' ''g'' 99 demo) = groups demo \<and>
   clients (handleJoinGroup ''a'' ''g'' 99 demo) = clients demo \<and>
   outbox (handleJoinGroup ''a'' ''g'' 99 demo) =
     outbox demo @ [(''a'', GroupJoined ''g'' 2),
                    (''a'', GroupData (sharedTabs (snd (hd (groups demo)))) []),
                    (''b'', MemberJoined ''a'' 2)]"
proof -
  have m: "is_member demo ''a'' ''g''" and j: "has_joined demo ''a'' ''g''"
    by (simp_all add: is_member_def has_joined_def demo_groups demo_clients)
  have "outbox (handleJoinGroup ''a'' ''g'' 99 demo) =
     outbox demo @ [(''a'', GroupJoined ''g'' 2),
                    (''a'', GroupData (sharedTabs (snd (hd (groups demo)))) []),
                    (''b'', MemberJoined ''a'' 2)]"
    by (simp add: handleJoinGroup_def demo_groups demo_clients set_add_def Let_def ws_send_def
          broadcastToGroup_def recipients_def)
  then show ?thesis
    using m j join_idempotent [OF m j, of 99] by simp
qed

lemma slice_last_kept:
  "(if length xs > n then slice_last n xs else xs) = slice_last n xs"
  by (simp add: slice_last_def)

lemma slice_last_append: "slice_last n (slice_last n xs @ ys) = slice_last n (xs @ ys)"
proof (cases "length xs \<le> n")
  case True
  then show ?thesis by (simp add: slice_last_def)
next
  case False
  define a where "a = take (length xs - n) xs"
  define b where "b = drop (length xs - n) xs"
  have xs: "xs = a @ b" and b: "length b = n"
    using False by (simp_all add: a_def b_def)
  show ?thesis
    unfolding xs by (simp add: slice_last_def b)
qed

lemma slice_last_long: "n \<le> length ys \<Longrightarrow> slice_last n (xs @ ys) = slice_last n ys"
  by (simp add: slice_last_def)

lemma length_slice_last: "length (slice_last n xs) = min n (length xs)"
  by (simp add: slice_last_def)

lemma share_each_some:
  "distinct gs \<Longrightarrow>
   map_of (groups (state_of (share_each c (Some p) t gs s))) g =
     (case map_of (groups s) g of
        None \<Rightarrow> None
      | Some grp \<Rightarrow>
          Some (if g \<in> set gs
                then grp\<lparr>sharedTabs := slice_last 100 (sharedTabs grp @
                         [\<lparr>payload = Some p, sharedBy = c, timestamp = t\<rparr>])\<rparr>
                else grp))"
proof (induction gs arbitrary: s)
  case Nil
  then show ?case by (simp split: option.splits)
next
  case (Cons g0 gs)
  then have d: "distinct gs" and n: "g0 \<notin> set gs"
    by simp_all
  show ?case
  proof (cases "map_of (groups s) g0")
    case None
    then show ?thesis
      using Cons.IH [OF d, of s] by (auto split: option.splits)
  next
    case (Some grp0)
    then show ?thesis
      using n
      by (auto simp: Cons.IH [OF d] Let_def slice_last_kept update_conv' split: option.splits)
  qed
qed

lemma share_each_none:
  "map_of (groups (state_of (share_each c None t gs s))) g =
     (case map_of (groups s) g of
        None \<Rightarrow> None
      | Some grp \<Rightarrow>
          Some (if find (\<lambda>g'. map_of (groups s) g' \<noteq> None) gs = Some g
                then grp\<lparr>sharedTabs := slice_last 100 (sharedTabs grp @
                         [\<lparr>payload = None, sharedBy = c, timestamp = t\<rparr>])\<rparr>
                else grp))"
proof (induction gs)
  case Nil
  then show ?case by (simp split: option.splits)
next
  case (Cons g0 gs)
  show ?case
  proof (cases "map_of (groups s) g0")
    case None
    then show ?thesis
      using Cons.IH by (auto split: option.splits)
  next
    case (Some grp0)
    then show ?thesis
      by (auto simp: Let_def slice_last_kept update_conv' split: option.splits)
  qed
qed

lemma find_all_exist:
  "\<forall>g \<in> set gs. P g \<Longrightarrow> find P gs = (case gs of [] \<Rightarrow> None | g0 # rest \<Rightarrow> Some g0)"
  by (cases gs) simp_all

lemma registry_ok_clientD:
  assumes "registry_ok s" and "map_of (clients s) c = Some cl"
  shows "distinct (cgroups cl)" and "\<forall>g \<in> set (cgroups cl). map_of (groups s) g \<noteq> None"
proof -
  have t: "tidy s" and sym: "symmetric s"
    using assms(1) by (simp_all add: registry_ok_iff)
  show "distinct (cgroups cl)"
    using tidy_clientD [OF t assms(2)] .
  have mem: "is_member s c g" if "g \<in> set (cgroups cl)" for g
    using that sym assms(2) by (simp add: symmetric_def has_joined_def)
  have "map_of (groups s) g \<noteq> None" if "g \<in> set (cgroups cl)" for g
    using mem [OF that] by (cases "map_of (groups s) g") (simp_all add: is_member_def)
  then show "\<forall>g \<in> set (cgroups cl). map_of (groups s) g \<noteq> None"
    by blast
qed

lemma share_history:
  assumes ok: "registry_ok s" and grp: "map_of (groups s) g = Some grp"
  shows "map_of (groups (state_of (handleShareTab c d t s))) g =
           Some (if delivers s c d g
                 then grp\<lparr>sharedTabs := slice_last 100 (sharedTabs grp @
                          [\<lparr>payload = d, sharedBy = c, timestamp = t\<rparr>])\<rparr>
                 else grp)"
proof (cases "map_of (clients s) c")
  case None
  then show ?thesis
    using grp by (simp add: handleShareTab_def delivers_def)
next
  case (Some cl)
  note cl = registry_ok_clientD [OF ok Some]
  show ?thesis
  proof (cases d)
    case None
    have "find (\<lambda>g'. map_of (groups s) g' \<noteq> None) (cgroups cl) =
            (case cgroups cl of [] \<Rightarrow> None | g0 # rest \<Rightarrow> Some g0)"
      using cl(2) by (rule find_all_exist)
    then show ?thesis
      using Some None grp
      by (auto simp: handleShareTab_def delivers_def share_each_none split: list.splits)
  next
    case (Some p)
    then show ?thesis
      using \<open>map_of (clients s) c = Some cl\<close> grp cl(1)
      by (simp add: handleShareTab_def delivers_def share_each_some)
  qed
qed

lemma delivers_cong: "clients s' = clients s \<Longrightarrow> delivers s' = delivers s"
  by (simp add: delivers_def fun_eq_iff)

lemma delivered_cong: "clients s' = clients s \<Longrightarrow> delivered s' = delivered s"
  by (simp add: delivered_def delivers_def fun_eq_iff)

lemma share_all_history:
  "registry_ok s \<Longrightarrow> map_of (groups s) g = Some grp \<Longrightarrow>
   \<exists>grp'. map_of (groups (share_all sends s)) g = Some grp' \<and>
     sharedTabs grp' =
       (if delivered s g sends = [] then sharedTabs grp
        else slice_last 100 (sharedTabs grp @ delivered s g sends))"
proof (induction sends arbitrary: s grp)
  case Nil
  then show ?case by (simp add: delivered_def)
next
  case (Cons x sends)
  obtain c d t where x: "x = (c, d, t)"
    by (cases x) auto
  let ?s1 = "state_of (handleShareTab c d t s)"
  let ?r = "\<lparr>payload = d, sharedBy = c, timestamp = t\<rparr>"
  let ?grp1 = "if delivers s c d g
               then grp\<lparr>sharedTabs := slice_last 100 (sharedTabs grp @ [?r])\<rparr> else grp"
  have ok1: "registry_ok ?s1"
    using Cons.prems(1) by (simp add: registry_ok_share)
  have g1: "map_of (groups ?s1) g = Some ?grp1"
    using share_history [OF Cons.prems] .
  have same: "delivered ?s1 = delivered s"
    by (rule delivered_cong) (simp add: share_views)
  obtain grp' where res: "map_of (groups (share_all sends ?s1)) g = Some grp'"
    and hist: "sharedTabs grp' =
       (if delivered s g sends = [] then sharedTabs ?grp1
        else slice_last 100 (sharedTabs ?grp1 @ delivered s g sends))"
    using Cons.IH [OF ok1 g1] unfolding same by blast
  have "sharedTabs grp' =
       (if delivered s g (x # sends) = [] then sharedTabs grp
        else slice_last 100 (sharedTabs grp @ delivered s g (x # sends)))"
  proof (cases "delivers s c d g")
    case True
    then have "delivered s g (x # sends) = ?r # delivered s g sends"
      by (simp add: delivered_def x)
    then show ?thesis
      using True hist slice_last_append [of 100 "sharedTabs grp @ [?r]" "delivered s g sends"]
      by simp
  next
    case False
    then have "delivered s g (x # sends) = delivered s g sends"
      by (simp add: delivered_def x)
    then show ?thesis
      using False hist by simp
  qed
  then show ?case
    using res by (simp add: x)
qed

lemma registry_ok_demo: "registry_ok demo"
  by (simp add: registry_ok_def demo_groups demo_clients has_joined_def is_member_def)

lemma delivered_burst:
  "delivered demo ''g'' burst =
     map (\<lambda>i. \<lparr>payload = Some ''page'', sharedBy = ''a'', timestamp = 100 + int i\<rparr>) [0..<150]"
  by (simp add: delivered_def burst_def delivers_def demo_clients filter_map comp_def
      del: upt_Suc)

text \<open>
  Claim C5. In a state the server reaches, when a sequence of shares delivers more than 100
  records into a group, the group's history afterwards is exactly the last 100 of the
  records delivered, in arrival order, and has length 100: the oldest are evicted first
  (eviction follows arrival order only).
\<close>

theorem history_bound:
  assumes "registry_ok s" and "map_of (groups s) g = Some grp"
    and "length (delivered s g sends) > 100"
  shows "map_option sharedTabs (map_of (groups (share_all sends s)) g) =
           Some (slice_last 100 (delivered s g sends)) \<and>
         length (slice_last 100 (delivered s g sends)) = 100"
proof -
  obtain grp' where res: "map_of (groups (share_all sends s)) g = Some grp'"
    and hist: "sharedTabs grp' =
       (if delivered s g sends = [] then sharedTabs grp
        else slice_last 100 (sharedTabs grp @ delivered s g sends))"
    using share_all_history [OF assms(1,2)] by blast
  have "delivered s g sends \<noteq> []"
    using assms(3) by auto
  then have "sharedTabs grp' = slice_last 100 (delivered s g sends)"
    using hist assms(3) by (simp add: slice_last_long)
  then show ?thesis
    using res assms(3) by (simp add: length_slice_last)
qed

theorem history_bound_witness:
  "registry_ok demo \<and> map_of (groups demo) ''g'' \<noteq> None \<and>
   length (delivered demo ''g'' burst) = 150 \<and>
   map_option (map timestamp o sharedTabs) (map_of (groups (share_all burst demo)) ''g'') =
     Some (map (\<lambda>i. 100 + int i) [50..<150])"
proof -
  have g: "map_of (groups demo) ''g'' = Some (snd (hd (groups demo)))"
    by (simp add: demo_groups)
  have len: "length (delivered demo ''g'' burst) = 150"
    by (simp add: delivered_burst del: upt_Suc)
  have last: "map timestamp (slice_last 100 (delivered demo ''g'' burst)) =
                map (\<lambda>i. 100 + int i) [50..<150]"
    by (simp add: delivered_burst slice_last_def drop_map comp_def del: upt_Suc)
  have h: "map_option sharedTabs (map_of (groups (share_all burst demo)) ''g'') =
             Some (slice_last 100 (delivered demo ''g'' burst))"
    using history_bound [OF registry_ok_demo g, of burst] len by simp
  have "map_option (map timestamp o sharedTabs) (map_of (groups (share_all burst demo)) ''g'') =
          map_option (map timestamp)
            (map_option sharedTabs (map_of (groups (share_all burst demo)) ''g''))"
    by (simp add: option.map_comp)
  also have "\<dots> = Some (map timestamp (slice_last 100 (delivered demo ''g'' burst)))"
    by (simp only: h option.map)
  also have "\<dots> = Some (map (\<lambda>i. 100 + int i) [50..<150])"
    by (simp only: last)
  finally show ?thesis
    using registry_ok_demo g len by simp
qed

text \<open>
  Claim C2, as the code has it. \<^verbatim>\<open>handleLeaveGroup\<close> removes a group in the same call
  that empties its member set (\<^verbatim>\<open>this.groups.delete(groupId)\<close> under the comment
  \<^verbatim>\<open>Remove empty groups\<close>), history and annotation log with it. A connection that joins
  the identifier afterwards, however soon, gets a fresh group with empty history, empty
  annotation log and a new creation time. No empty group is left for the sweeper: its
  one-hour rule finds nothing to reclaim in a state the server reaches.
\<close>

theorem last_leave_deletes_group:
  assumes "map_of (clients s) c = Some cl" and "map_of (groups s) g = Some grp"
    and "set (members grp) \<subseteq> {c}"
  shows "map_of (groups (handleLeaveGroup c g s)) g = None \<and>
         (map_of (clients s) c' \<noteq> None \<longrightarrow>
            map_of (groups (handleJoinGroup c' g t (handleLeaveGroup c g s))) g =
              Some \<lparr>group_id = g, members = [c'], sharedTabs = [], annotations = [],
                     created = t\<rparr>) \<and>
         (registry_ok s \<longrightarrow>
            sweep_groups t' (handleLeaveGroup c g s) = handleLeaveGroup c g s)"
proof -
  let ?s1 = "handleLeaveGroup c g s"
  have gone: "map_of (groups ?s1) g = None"
    using assms(3) by (simp add: leave_groups [OF assms(1,2)] set_delete_Nil delete_conv')
  have rejoin: "map_of (groups (handleJoinGroup c' g t ?s1)) g =
              Some \<lparr>group_id = g, members = [c'], sharedTabs = [], annotations = [],
                     created = t\<rparr>"
    if "map_of (clients s) c' \<noteq> None"
  proof -
    have "map_of (clients ?s1) c' \<noteq> None"
      using that by (simp add: leave_clients [OF assms(1,2)] update_conv')
    then obtain cl' where "map_of (clients ?s1) c' = Some cl'"
      by blast
    then show ?thesis
      using gone by (simp add: join_groups update_conv' new_group_def set_add_def)
  qed
  have "sweep_groups t' ?s1 = ?s1" if "registry_ok s"
    using that by (simp add: registry_ok_leave sweep_groups_ok)
  then show ?thesis
    using gone rejoin by blast
qed

theorem last_leave_deletes_group_witness:
  "map_of (clients (handleLeaveGroup ''b'' ''g'' demo)) ''a'' \<noteq> None \<and>
   map_option members (map_of (groups (handleLeaveGroup ''b'' ''g'' demo)) ''g'') = Some [''a''] \<and>
   registry_ok (handleLeaveGroup ''b'' ''g'' demo) \<and>
   map_of (groups (handleLeaveGroup ''a'' ''g'' (handleLeaveGroup ''b'' ''g'' demo))) ''g'' = None \<and>
   map_of (groups (handleJoinGroup ''a'' ''g'' 31
        (handleLeaveGroup ''a'' ''g'' (handleLeaveGroup ''b'' ''g'' demo)))) ''g'' =
     Some \<lparr>group_id = ''g'', members = [''a''], sharedTabs = [], annotations = [], created = 31\<rparr>"
proof -
  let ?s = "handleLeaveGroup ''b'' ''g'' demo"
  have c: "map_of (clients ?s) ''a'' = Some \<lparr>ws_open = True, cgroups = [''g''], lastSeen = 1\<rparr>"
    by (simp add: handleLeaveGroup_def demo_groups demo_clients Let_def set_delete_def
          broadcastToGroup_def)
  have g: "map_of (groups ?s) ''g'' =
     Some \<lparr>group_id = ''g'', members = [''a''],
          sharedTabs = [\<lparr>payload = Some ''tab'', sharedBy = ''a'', timestamp = 30\<rparr>],
          annotations = [], created = 10\<rparr>"
    by (simp add: handleLeaveGroup_def demo_groups demo_clients Let_def set_delete_def
          broadcastToGroup_def)
  have ok: "registry_ok ?s"
    using registry_ok_demo by (rule registry_ok_leave)
  show ?thesis
    using last_leave_deletes_group [OF c g, of "''a''" 31 0] c g ok by simp
qed

text \<open>
  The claim as the specification states it (the emptied group is kept with its history until
  the sweeper reclaims it after the grace window) fails: \<open>a\<close> is the last member of \<open>g\<close>,
  whose history holds one tab shared at time 30; after \<open>a\<close> leaves the group is not
  registered, and when \<open>a\<close> joins again at time 31 the history is empty.
\<close>

theorem grace_window_counterexample:
  "map_option sharedTabs (map_of (groups (handleLeaveGroup ''b'' ''g'' demo)) ''g'') =
     Some [\<lparr>payload = Some ''tab'', sharedBy = ''a'', timestamp = 30\<rparr>] \<and>
   map_option members (map_of (groups (handleLeaveGroup ''b'' ''g'' demo)) ''g'') = Some [''a''] \<and>
   map_of (groups (handleLeaveGroup ''a'' ''g'' (handleLeaveGroup ''b'' ''g'' demo))) ''g'' = None \<and>
   map_option sharedTabs (map_of (groups (handleJoinGroup ''a'' ''g'' 31
        (handleLeaveGroup ''a'' ''g'' (handleLeaveGroup ''b'' ''g'' demo)))) ''g'') = Some []"
  by (simp add: handleLeaveGroup_def handleJoinGroup_def demo_groups demo_clients Let_def
        set_delete_def set_add_def broadcastToGroup_def new_group_def ws_send_def)

lemma seen_outbox [simp]: "seen (s\<lparr>outbox := ob\<rparr>) = seen s"
  by (simp add: seen_def fun_eq_iff)

lemma seen_clients: "clients s' = clients s \<Longrightarrow> seen s' c = seen s c"
  by (simp add: seen_def)

lemma seen_join: "seen (handleJoinGroup c g t s) c' = seen s c'"
proof (cases "map_of (clients s) c")
  case None
  then show ?thesis by (simp add: handleJoinGroup_def)
next
  case (Some cl)
  then show ?thesis
    by (auto simp: seen_def join_clients update_conv')
qed

lemma seen_leave: "seen (handleLeaveGroup c g s) c' = seen s c'"
proof (cases "map_of (clients s) c = None \<or> map_of (groups s) g = None")
  case True
  then show ?thesis by (simp add: leave_noop)
next
  case False
  then obtain cl grp where "map_of (clients s) c = Some cl" "map_of (groups s) g = Some grp"
    by auto
  then show ?thesis
    by (auto simp: seen_def leave_clients update_conv')
qed

lemma seen_leave_all: "seen (foldl (\<lambda>s' g. handleLeaveGroup c g s') s gs) c' = seen s c'"
  by (induction gs arbitrary: s) (simp_all add: seen_leave)

lemma seen_disconnect:
  "seen (handleClientDisconnect c s) c' = (if c' = c then None else seen s c')"
proof (cases "map_of (clients s) c")
  case None
  then show ?thesis
    by (auto simp: handleClientDisconnect_def seen_def)
next
  case (Some cl)
  let ?s1 = "foldl (\<lambda>s' g. handleLeaveGroup c g s') s (cgroups cl)"
  have "seen (handleClientDisconnect c s) c' =
          map_option lastSeen (map_of (AList.delete c (clients ?s1)) c')"
    using Some by (simp add: handleClientDisconnect_def Let_def seen_def)
  also have "\<dots> = (if c' = c then None else seen ?s1 c')"
    by (simp add: delete_conv' seen_def)
  finally show ?thesis
    by (simp add: seen_leave_all)
qed

lemma seen_sweep_clients_aux:
  "seen (foldl (\<lambda>s' (c', cl'). if P cl' then handleClientDisconnect c' s' else s') s xs) c =
     (if \<exists>cl'. (c, cl') \<in> set xs \<and> P cl' then None else seen s c)"
proof (induction xs arbitrary: s)
  case Nil
  then show ?case by simp
next
  case (Cons x xs)
  obtain c0 cl0 where x: "x = (c0, cl0)"
    by (cases x) auto
  show ?case
    unfolding x by (auto simp: Cons.IH seen_disconnect)
qed

lemma seen_sweep:
  assumes "distinct (map fst (clients s))" and "map_of (clients s) c = Some cl"
  shows "seen (sweep t s) c = (if t - lastSeen cl > 5 * 60 * 1000 then None else Some (lastSeen cl))"
proof -
  have ex: "(\<exists>cl'. (c, cl') \<in> set (clients s) \<and> t - lastSeen cl' > 5 * 60 * 1000) =
            (t - lastSeen cl > 5 * 60 * 1000)"
    using assms by (auto dest: eq_key_imp_eq_value)
  have "seen (sweep t s) c = seen (sweep_clients t s) c"
    by (rule seen_clients) (simp add: sweep_def sweep_groups_def)
  also have "\<dots> = (if t - lastSeen cl > 5 * 60 * 1000 then None else seen s c)"
    unfolding sweep_clients_def seen_sweep_clients_aux ex ..
  finally show ?thesis
    using assms(2) by (simp add: seen_def)
qed

lemma seen_handleMessage:
  assumes "map_of (clients s) c = Some cl"
  shows "seen (state_of (handleMessage c e t s)) c = Some t"
proof -
  let ?s1 = "s\<lparr>clients := AList.update c (cl\<lparr>lastSeen := t\<rparr>) (clients s)\<rparr>"
  have s1: "seen ?s1 c = Some t"
    by (simp add: seen_def update_conv')
  have c1: "map_of (clients ?s1) c = Some (cl\<lparr>lastSeen := t\<rparr>)"
    by (simp add: update_conv')
  have hb: "seen (handleHeartbeat c t ?s1) c = Some t"
    using c1 by (simp add: handleHeartbeat_def ws_send_def seen_def update_conv')
  have sh: "seen (state_of (handleShareTab c d t ?s1)) c = seen ?s1 c" for d
    by (rule seen_clients) (simp add: share_views)
  have an: "seen (handleAnnotation c d t ?s1) c = seen ?s1 c" for d
    by (rule seen_clients) (simp add: annotate_views)
  have cu: "seen (handleClusterUpdate c d ?s1) c = seen ?s1 c" for d
    by (rule seen_clients) (simp add: cluster_update_registries)
  show ?thesis
  proof (cases e)
    case Heartbeat
    then show ?thesis using assms hb by (simp add: handleMessage_def)
  next
    case (JoinGroup g)
    then show ?thesis using assms s1 by (simp add: handleMessage_def seen_join)
  next
    case (LeaveGroup g)
    then show ?thesis using assms s1 by (simp add: handleMessage_def seen_leave)
  next
    case (ShareTab d)
    then show ?thesis using assms s1 sh [of d] by (simp add: handleMessage_def)
  next
    case (AnnotationCreated d)
    then show ?thesis using assms s1 an [of d] by (simp add: handleMessage_def)
  next
    case (AIClusterUpdate d)
    then show ?thesis using assms s1 cu [of d] by (simp add: handleMessage_def)
  next
    case Unrecognized
    then show ?thesis using assms s1 by (simp add: handleMessage_def)
  qed
qed

text \<open>
  Claim C10. For a registered connection, handling an inbound envelope of any type, the
  unrecognized ones included, sets the connection's liveness timestamp to the time of
  receipt. A sweep that follows at time \<open>t'\<close> removes the connection exactly when more than
  5 minutes (300000 ms) have passed since that receipt, and otherwise leaves it registered
  with the same timestamp: eviction needs 5 minutes without any envelope, not missed
  heartbeats.
\<close>

theorem liveness_refresh:
  assumes "registry_ok s" and "map_of (clients s) c = Some cl"
  shows "seen (on_message c (Envelope e) t s) c = Some t \<and>
         seen (sweep t' (on_message c (Envelope e) t s)) c =
           (if t' - t > 5 * 60 * 1000 then None else Some t)"
proof -
  let ?s1 = "on_message c (Envelope e) t s"
  have a: "seen ?s1 c = Some t"
    using seen_handleMessage [OF assms(2)] by (simp add: on_message_def)
  then obtain cl1 where c1: "map_of (clients ?s1) c = Some cl1" and l1: "lastSeen cl1 = t"
    by (auto simp: seen_def)
  have "registry_ok ?s1"
    using assms(1) by (rule registry_ok_on_message)
  then have "distinct (map fst (clients ?s1))"
    by (simp add: registry_ok_def)
  then show ?thesis
    using a seen_sweep [OF _ c1, of t'] l1 by simp
qed

theorem liveness_refresh_witness:
  "registry_ok demo \<and> map_of (clients demo) ''b'' \<noteq> None \<and>
   seen demo ''b'' = Some 2 \<and>
   seen (on_message ''b'' (Envelope Unrecognized) 400000 demo) ''b'' = Some 400000 \<and>
   seen (sweep 700000 (on_message ''b'' (Envelope Unrecognized) 400000 demo)) ''b'' = Some 400000 \<and>
   seen (sweep 700001 (on_message ''b'' (Envelope Unrecognized) 400000 demo)) ''b'' = None \<and>
   seen (sweep 700000 (on_message ''b'' (Envelope Unrecognized) 400000 demo)) ''a'' = None"
proof -
  have b: "map_of (clients demo) ''b'' = Some \<lparr>ws_open = True, cgroups = [''g''], lastSeen = 2\<rparr>"
    by (simp add: demo_clients)
  let ?s1 = "on_message ''b'' (Envelope Unrecognized) 400000 demo"
  have c1: "clients ?s1 =
      [(''a'', \<lparr>ws_open = True, cgroups = [''g''], lastSeen = 1\<rparr>),
       (''b'', \<lparr>ws_open = True, cgroups = [''g''], lastSeen = 400000\<rparr>)]"
    by (simp add: on_message_def handleMessage_def demo_clients)
  have a: "seen (sweep 700000 ?s1) ''a'' = None"
    using seen_sweep [of ?s1 "''a''" _ 700000] by (simp add: c1)
  show ?thesis
    using liveness_refresh [OF registry_ok_demo b, of Unrecognized 400000 700000]
      liveness_refresh [OF registry_ok_demo b, of Unrecognized 400000 700001]
      registry_ok_demo a
    by (simp add: seen_def demo_clients)
qed

section \<open>Properties of the extension\<close>

lemma find_Some_holds: "find P xs = Some x \<Longrightarrow> P x \<and> x \<in> set xs"
  by (induction xs) (auto split: if_splits)

lemma handleSharedTab_rejects:
  "(\<exists>n. fst (handleSharedTab tabData storedTabs) = Rejected n) =
     (\<exists>t \<in> set storedTabs. same_page t tabData \<and> gap t tabData > 1000)"
  by (auto simp: handleSharedTab_def same_page_def gap_def find_None_iff find_Some_iff
        split: option.splits)

lemma handleSharedTab_echo:
  "(fst (handleSharedTab tabData storedTabs) = EchoIgnored) =
     (\<not> (\<exists>t \<in> set storedTabs. same_page t tabData \<and> gap t tabData > 1000) \<and>
      (\<exists>t \<in> set storedTabs. tab_url t = tab_url tabData \<and> gap t tabData \<le> 1000))"
  by (auto simp: handleSharedTab_def same_page_def gap_def find_None_iff list_ex_iff
        split: option.splits dest: find_Some_holds)

lemma handleSharedTab_kept:
  "snd (handleSharedTab tabData storedTabs) =
     (if fst (handleSharedTab tabData storedTabs) = Appended
      then storedTabs @ [tabData] else storedTabs)"
  by (auto simp: handleSharedTab_def split: option.splits)

lemma other_not_inherited: "''Other'' \<notin> set object_prototype_keys"
  by (simp add: object_prototype_keys_def)

lemma bucket_not_inherited: "bucket hostname t \<notin> set object_prototype_keys"
  by (simp add: bucket_def other_not_inherited split: option.splits)

lemma add_tab_bucket:
  assumes "\<forall>k \<in> fst ` set g. k \<notin> set object_prototype_keys"
  shows "add_tab hostname g t =
           AList.update (bucket hostname t)
             ((case map_of g (bucket hostname t) of None \<Rightarrow> [] | Some ts \<Rightarrow> ts) @ [t]) g"
proof (cases "hostname (tab_url t)")
  case None
  then show ?thesis
    by (simp add: add_tab_def bucket_def push_other_def js_get_def other_not_inherited
          split: option.splits)
next
  case (Some d)
  show ?thesis
  proof (cases "map_of g d")
    case None
    then show ?thesis
      using Some
      by (simp add: add_tab_def bucket_def push_other_def js_get_def other_not_inherited
            split: option.splits)
  next
    case (Some ts)
    then have "d \<in> fst ` set g"
      by (meson domI dom_map_of_conv_image_fst [THEN equalityD1, THEN subsetD])
    then have "d \<notin> set object_prototype_keys"
      using assms by blast
    then show ?thesis
      using Some \<open>hostname (tab_url t) = Some d\<close>
      by (simp add: add_tab_def bucket_def js_get_def)
  qed
qed

lemma fold_groups:
  "distinct (map fst (foldl (add_tab hostname) [] tabs)) \<and>
   (\<forall>k \<in> fst ` set (foldl (add_tab hostname) [] tabs). k \<notin> set object_prototype_keys) \<and>
   (\<forall>k. map_of (foldl (add_tab hostname) [] tabs) k =
          (if k \<in> bucket hostname ` set tabs
           then Some (filter (\<lambda>t. bucket hostname t = k) tabs) else None))"
proof (induction tabs rule: rev_induct)
  case Nil
  then show ?case by simp
next
  case (snoc t tabs)
  let ?g = "foldl (add_tab hostname) [] tabs"
  let ?k = "bucket hostname t"
  let ?old = "case map_of ?g ?k of None \<Rightarrow> [] | Some ts \<Rightarrow> ts"
  have step: "foldl (add_tab hostname) [] (tabs @ [t]) = AList.update ?k (?old @ [t]) ?g"
    using snoc.IH by (simp add: add_tab_bucket)
  have old: "?old = filter (\<lambda>t'. bucket hostname t' = ?k) tabs"
  proof (cases "?k \<in> bucket hostname ` set tabs")
    case True
    then show ?thesis using snoc.IH by simp
  next
    case False
    then have "\<forall>x \<in> set tabs. bucket hostname x \<noteq> ?k"
      by (metis imageI)
    then have "filter (\<lambda>t'. bucket hostname t' = ?k) tabs = []"
      by (simp add: filter_empty_conv)
    then show ?thesis using snoc.IH False by simp
  qed
  have d: "distinct (map fst (AList.update ?k (?old @ [t]) ?g))"
    using snoc.IH by (simp add: distinct_update)
  have p: "\<forall>k \<in> fst ` set (AList.update ?k (?old @ [t]) ?g). k \<notin> set object_prototype_keys"
    using snoc.IH by (auto simp: dom_update bucket_not_inherited)
  have m: "map_of (AList.update ?k (?old @ [t]) ?g) k =
          (if k \<in> bucket hostname ` set (tabs @ [t])
           then Some (filter (\<lambda>t'. bucket hostname t' = k) (tabs @ [t])) else None)" for k
  proof (cases "k = ?k")
    case True
    then show ?thesis
      by (simp add: update_conv' old)
  next
    case False
    then show ?thesis
      using snoc.IH by (auto simp: update_conv')
  qed
  show ?case
    unfolding step using d p m by blast
qed

lemma mset_object_entries: "mset (object_entries obj) = mset obj"
  by (simp add: object_entries_def)

lemma set_object_entries: "set (object_entries obj) = set obj"
  using mset_object_entries [of obj] by (rule mset_eq_setD)

lemma distinct_object_entries:
  "distinct (map fst (object_entries obj)) = distinct (map fst obj)"
proof -
  have "mset (map fst (object_entries obj)) = mset (map fst obj)"
    by (simp add: mset_object_entries)
  then show ?thesis
    by (rule mset_eq_imp_distinct_iff)
qed

lemma sum_buckets:
  "distinct ks \<Longrightarrow>
   (\<Sum>k\<leftarrow>ks. mset (filter (\<lambda>t. f t = k) xs)) = mset (filter (\<lambda>t. f t \<in> set ks) xs)"
proof (induction ks)
  case Nil
  then show ?case by simp
next
  case (Cons k ks)
  then have "k \<notin> set ks" and "distinct ks"
    by simp_all
  have "mset (filter (\<lambda>t. f t = k) xs) + mset (filter (\<lambda>t. f t \<in> set ks) xs) =
        mset (filter (\<lambda>t. f t \<in> set (k # ks)) xs)"
    using \<open>k \<notin> set ks\<close> by (induction xs) auto
  then show ?case
    using Cons.IH [OF \<open>distinct ks\<close>] by simp
qed

lemma fallback_partition:
  fixes hostname tabs
  defines "cs \<equiv> simpleGroupByDomain hostname tabs"
  shows "distinct (map cluster_name cs)"
    and "\<forall>c \<in> set cs. \<exists>k. cluster_name c = Some k \<and> k \<in> bucket hostname ` set tabs \<and>
            cluster_tabs c = filter (\<lambda>t. bucket hostname t = k) tabs \<and>
            cluster_theme c = ''Content from '' @ k"
    and "\<forall>t \<in> set tabs. \<exists>c \<in> set cs. cluster_name c = Some (bucket hostname t)"
    and "mset (concat (map cluster_tabs cs)) = mset tabs"
proof -
  let ?g = "foldl (add_tab hostname) [] tabs"
  let ?mk = "\<lambda>(domain, ts). \<lparr>cluster_name = Some domain, cluster_tabs = ts,
                cluster_theme = ''Content from '' @ domain\<rparr>"
  have cs: "cs = map ?mk (object_entries ?g)"
    by (simp add: cs_def simpleGroupByDomain_def)
  have dist: "distinct (map fst ?g)"
    and look: "\<And>k. map_of ?g k =
          (if k \<in> bucket hostname ` set tabs
           then Some (filter (\<lambda>t. bucket hostname t = k) tabs) else None)"
    using fold_groups [of hostname tabs] by simp_all
  have entry: "k \<in> bucket hostname ` set tabs \<and> ts = filter (\<lambda>t. bucket hostname t = k) tabs"
    if "(k, ts) \<in> set ?g" for k ts
  proof -
    have "map_of ?g k = Some ts"
      using that dist by simp
    then show ?thesis
      by (simp add: look split: if_splits)
  qed
  have names: "map cluster_name cs = map (Some \<circ> fst) (object_entries ?g)"
    by (simp add: cs split_def comp_def)
  show "distinct (map cluster_name cs)"
    unfolding names
    using dist distinct_object_entries [of ?g]
    by (simp add: distinct_map inj_on_def flip: map_map)
  show "\<forall>c \<in> set cs. \<exists>k. cluster_name c = Some k \<and> k \<in> bucket hostname ` set tabs \<and>
            cluster_tabs c = filter (\<lambda>t. bucket hostname t = k) tabs \<and>
            cluster_theme c = ''Content from '' @ k"
    using entry by (auto simp: cs set_object_entries)
  show "\<forall>t \<in> set tabs. \<exists>c \<in> set cs. cluster_name c = Some (bucket hostname t)"
  proof
    fix t assume "t \<in> set tabs"
    then have "map_of ?g (bucket hostname t) =
                 Some (filter (\<lambda>t'. bucket hostname t' = bucket hostname t) tabs)"
      by (simp add: look)
    then have "(bucket hostname t, filter (\<lambda>t'. bucket hostname t' = bucket hostname t) tabs)
                 \<in> set (object_entries ?g)"
      by (simp add: set_object_entries map_of_SomeD)
    then have "?mk (bucket hostname t, filter (\<lambda>t'. bucket hostname t' = bucket hostname t) tabs)
                 \<in> set cs"
      unfolding cs set_map by (rule imageI)
    then show "\<exists>c \<in> set cs. cluster_name c = Some (bucket hostname t)"
      by (intro bexI [where x = "?mk (bucket hostname t,
            filter (\<lambda>t'. bucket hostname t' = bucket hostname t) tabs)"]) simp_all
  qed
  have keys: "set (map fst ?g) = bucket hostname ` set tabs"
  proof -
    have "fst ` set ?g = dom (map_of ?g)"
      by (simp add: dom_map_of_conv_image_fst)
    also have "\<dots> = bucket hostname ` set tabs"
      by (auto simp: look dom_def)
    finally show ?thesis by simp
  qed
  have "map cluster_tabs cs = map snd (object_entries ?g)"
    by (simp add: cs split_def comp_def)
  then have "mset (concat (map cluster_tabs cs)) = (\<Sum>e\<leftarrow>object_entries ?g. mset (snd e))"
    by (simp add: mset_concat comp_def)
  also have "\<dots> = sum_mset (image_mset (\<lambda>e. mset (snd e)) (mset (object_entries ?g)))"
    by (simp flip: sum_mset_sum_list)
  also have "\<dots> = (\<Sum>e\<leftarrow>?g. mset (snd e))"
    by (simp add: mset_object_entries flip: sum_mset_sum_list)
  also have "\<dots> = (\<Sum>e\<leftarrow>?g. mset (filter (\<lambda>t. bucket hostname t = fst e) tabs))"
  proof -
    have "snd e = filter (\<lambda>t. bucket hostname t = fst e) tabs" if "e \<in> set ?g" for e
      using entry [of "fst e" "snd e"] that by simp
    then have "map (\<lambda>e. mset (snd e)) ?g =
               map (\<lambda>e. mset (filter (\<lambda>t. bucket hostname t = fst e) tabs)) ?g"
      by (intro map_cong) (simp_all del: mset_filter)
    then show ?thesis
      by (simp only:)
  qed
  also have "\<dots> = (\<Sum>k\<leftarrow>map fst ?g. mset (filter (\<lambda>t. bucket hostname t = k) tabs))"
    by (simp add: comp_def)
  also have "\<dots> = mset (filter (\<lambda>t. bucket hostname t \<in> set (map fst ?g)) tabs)"
    using dist by (rule sum_buckets)
  also have "\<dots> = mset tabs"
    unfolding keys by simp
  finally show "mset (concat (map cluster_tabs cs)) = mset tabs" .
qed

lemma simple_hostname_examples:
  "simple_hostname (tab_url tab_a) = Some ''a.example''"
  "simple_hostname (tab_url tab_b) = Some ''b.example''"
  "simple_hostname (tab_url tab_ctor) = Some ''constructor''"
  by (simp_all add: simple_hostname_def host_part_def tab_a_def tab_b_def tab_ctor_def)

lemmas fallback_defs = simpleGroupByDomain_def add_tab_def push_other_def js_get_def
  object_prototype_keys_def object_entries_def is_array_index_def is_digit_def index_value_def

text \<open>
  Claim C3, at the input where the code leaves it. The duplicate test of \<^verbatim>\<open>handleSharedTab\<close>
  matches on URL and group identifier (its comment: ``to allow same URL in different
  groups''), the echo test that follows matches on the URL alone. A stored record of the
  same URL in another group, 500 ms away from the incoming one, is no match on URL and
  group, so the policy appends the incoming record; the handler takes it for the server's
  echo and drops it without a notice. (For records of the same group the handler follows
  the policy: see \<open>handleSharedTab_rejects\<close>, \<open>handleSharedTab_echo\<close> and
  \<open>handleSharedTab_kept\<close>.)
\<close>

theorem echo_check_ignores_group:
  "\<not> same_page page_g1 page_g2 \<and>
   tab_url page_g1 = tab_url page_g2 \<and> gap page_g1 page_g2 = 500 \<and>
   handleSharedTab page_g2 [page_g1] = (EchoIgnored, [page_g1])"
  by (simp add: handleSharedTab_def same_page_def gap_def page_g1_def page_g2_def)

text \<open>
  Claim C7, at the input where the code leaves it. The URL \<^verbatim>\<open>http://constructor/\<close> parses
  and its host name is \<^verbatim>\<open>constructor\<close>, yet the tab is filed under \<open>Other\<close> with the theme
  of \<open>Other\<close>: \<^verbatim>\<open>domainGroups['constructor']\<close> reads the inherited \<^verbatim>\<open>Object\<close> function, the
  group is never created, and the failing \<^verbatim>\<open>push\<close> is caught by the handler meant for
  invalid URLs. A tab of an ordinary host is filed under its host name, one-tab list
  included. For every tab list the grouping is the partition by \<open>bucket\<close>
  (\<open>fallback_partition\<close>), which is the host name except for these inherited names.
\<close>

theorem fallback_misfiles_inherited_host:
  "simple_hostname (tab_url tab_ctor) = Some ''constructor'' \<and>
   simpleGroupByDomain simple_hostname [tab_ctor] =
     [\<lparr>cluster_name = Some ''Other'', cluster_tabs = [tab_ctor],
       cluster_theme = ''Content from Other''\<rparr>] \<and>
   simpleGroupByDomain simple_hostname [tab_a] =
     [\<lparr>cluster_name = Some ''a.example'', cluster_tabs = [tab_a],
       cluster_theme = ''Content from a.example''\<rparr>]"
  by (simp add: fallback_defs simple_hostname_examples)

lemma convert_all_tabs:
  "convert_all tabs rcs = Inr xs \<Longrightarrow>
   map cluster_tabs xs =
     map (\<lambda>c. resolve tabs (case raw_tabs c of None \<Rightarrow> [] | Some indices \<Rightarrow> indices)) rcs"
proof (induction rcs arbitrary: xs)
  case Nil
  then show ?case by simp
next
  case (Cons c rcs)
  then obtain x xs' where x: "convert tabs c = Inr x" and xs': "convert_all tabs rcs = Inr xs'"
    and xs: "xs = x # xs'"
    by (auto split: sum.splits)
  have "cluster_tabs x = resolve tabs (case raw_tabs c of None \<Rightarrow> [] | Some indices \<Rightarrow> indices)"
    using x by (auto simp: convert_def split: option.splits if_splits)
  then show ?case
    using Cons.IH [OF xs'] xs by simp
qed

lemma resolve_append: "resolve tabs (xs @ ys) = resolve tabs xs @ resolve tabs ys"
  by (simp add: resolve_def)

lemma resolve_concat: "concat (map (resolve tabs) iss) = resolve tabs (concat iss)"
  by (induction iss) (simp_all add: resolve_append resolve_def)

lemma concat_drop_empty:
  "concat (map f (filter (\<lambda>c. length (f c) > 0) xs)) = concat (map f xs)"
  by (induction xs) auto

lemma categorize_resolved:
  assumes "categorizeTabs isAIInitialized tabs (Clusters rcs) = Inr cs"
  shows "concat (map cluster_tabs cs) = resolve tabs (returned_indices rcs)"
    and "\<forall>c \<in> set cs. cluster_tabs c \<noteq> []"
proof -
  obtain xs where xs: "convert_all tabs rcs = Inr xs"
    and cs: "cs = filter (\<lambda>c. length (cluster_tabs c) > 0) xs"
    using assms by (auto simp: categorizeTabs_def split: if_splits sum.splits)
  have "concat (map cluster_tabs cs) = concat (map cluster_tabs xs)"
    unfolding cs by (rule concat_drop_empty)
  also have "\<dots> = concat (map (resolve tabs)
       (map (\<lambda>c. case raw_tabs c of None \<Rightarrow> [] | Some indices \<Rightarrow> indices) rcs))"
    by (simp add: convert_all_tabs [OF xs] comp_def)
  also have "\<dots> = resolve tabs (returned_indices rcs)"
    unfolding returned_indices_def by (rule resolve_concat)
  finally show "concat (map cluster_tabs cs) = resolve tabs (returned_indices rcs)" .
  show "\<forall>c \<in> set cs. cluster_tabs c \<noteq> []"
    by (auto simp: cs)
qed

lemma resolve_covers:
  assumes "mset (filter (\<lambda>i. 0 \<le> i \<and> i < int (length tabs)) indices) =
           mset (map int [0..<length tabs])"
  shows "mset (resolve tabs indices) = mset tabs"
proof -
  have "mset (resolve tabs indices) =
        image_mset (\<lambda>i. tabs ! nat i)
          (mset (filter (\<lambda>i. 0 \<le> i \<and> i < int (length tabs)) indices))"
    by (simp add: resolve_def del: mset_filter)
  also have "\<dots> = image_mset (\<lambda>i. tabs ! nat i) (mset (map int [0..<length tabs]))"
    by (simp only: assms)
  also have "\<dots> = mset (map (\<lambda>j. tabs ! j) [0..<length tabs])"
    by (simp add: multiset.map_comp comp_def del: mset_upt)
  also have "\<dots> = mset tabs"
    by (simp only: map_nth)
  finally show ?thesis .
qed

lemma published_error:
  "categorizeTabs isAIInitialized tabs resp = Inl e \<Longrightarrow>
   published hostname isAIInitialized tabs resp = simpleGroupByDomain hostname tabs"
  by (simp add: published_def response_arrives_def)

lemma published_ok:
  "categorizeTabs isAIInitialized tabs resp = Inr cs \<Longrightarrow>
   published hostname isAIInitialized tabs resp = cs"
  by (simp add: published_def response_arrives_def handleTabsCategorized_def)

lemma convert_usable: "usable c \<Longrightarrow> convert tabs c = Inr (with_tabs tabs c)"
  by (auto simp: usable_def convert_def with_tabs_def theme_of_def indices_of_def
        split: option.splits list.splits)

lemma convert_unusable: "\<not> usable c \<Longrightarrow> convert tabs c = Inl TypeError"
  by (auto simp: usable_def convert_def split: option.splits)

lemma convert_all_usable:
  "list_all usable rcs \<Longrightarrow> convert_all tabs rcs = Inr (map (with_tabs tabs) rcs)"
  by (induction rcs) (simp_all add: convert_usable)

lemma convert_all_unusable:
  "\<not> list_all usable rcs \<Longrightarrow> convert_all tabs rcs = Inl TypeError"
proof (induction rcs)
  case Nil
  then show ?case by simp
next
  case (Cons c rcs)
  show ?case
  proof (cases "usable c")
    case True
    then have "\<not> list_all usable rcs"
      using Cons.prems by simp
    then show ?thesis
      using True by (simp add: Cons.IH convert_usable)
  next
    case False
    then show ?thesis by (simp add: convert_unusable)
  qed
qed

lemma categorize_accepted:
  "accepted isAIInitialized resp \<Longrightarrow>
   categorizeTabs isAIInitialized tabs resp =
     Inr (map (with_tabs tabs)
            (filter (\<lambda>c. resolve tabs (indices_of c) \<noteq> []) (returned_clusters resp)))"
  by (cases resp)
    (simp_all add: accepted_def categorizeTabs_def returned_clusters_def convert_all_usable
       filter_map comp_def with_tabs_def)

lemma categorize_rejected:
  "\<not> accepted isAIInitialized resp \<Longrightarrow>
   categorizeTabs isAIInitialized tabs resp =
     Inl (if \<not> isAIInitialized then NotInitialized
          else (case resp of
                  ApiFailure \<Rightarrow> GeminiError
                | Unparsable \<Rightarrow> SyntaxError
                | NoClusters \<Rightarrow> InvalidStructure
                | Clusters rcs \<Rightarrow> TypeError))"
  by (cases resp) (auto simp: accepted_def categorizeTabs_def convert_all_unusable)

text \<open>
  Claim C1, as the code has it, for responses whose \<^verbatim>\<open>tabs\<close> arrays hold integers (what the
  request asks for). A response is rejected exactly when the classifier is not
  initialised, the request failed, the text does not parse, there is no \<^verbatim>\<open>clusters\<close>
  array, or some returned cluster has no \<^verbatim>\<open>tabs\<close> array or neither a name nor a non-empty
  theme; \<^verbatim>\<open>categorizeTabs\<close> then fails with the error named below, the fallback grouping
  is published, and it references every tab exactly once. Every other response is
  accepted, and the published partition is the result of \<^verbatim>\<open>categorizeTabs\<close>: the returned
  clusters in their order, each with its name and theme and with every index replaced by
  the tab at that index, out-of-range indices dropped, and the clusters left without tabs
  dropped. No default cluster is added, so the tabs referenced are those at the in-range
  indices returned, as often as they are returned: every tab exactly once when these
  indices are \<open>0 \<dots> n - 1\<close> once each, and a tab whose index is not returned is in no
  cluster.
\<close>

theorem published_partition:
  "(accepted isAIInitialized resp \<longrightarrow>
      categorizeTabs isAIInitialized tabs resp =
        Inr (published hostname isAIInitialized tabs resp) \<and>
      published hostname isAIInitialized tabs resp =
        map (with_tabs tabs)
          (filter (\<lambda>c. resolve tabs (indices_of c) \<noteq> []) (returned_clusters resp)) \<and>
      concat (map cluster_tabs (published hostname isAIInitialized tabs resp)) =
        resolve tabs (returned_indices (returned_clusters resp)) \<and>
      (\<forall>c \<in> set (published hostname isAIInitialized tabs resp). cluster_tabs c \<noteq> []) \<and>
      (mset (filter (\<lambda>i. 0 \<le> i \<and> i < int (length tabs))
               (returned_indices (returned_clusters resp))) =
         mset (map int [0..<length tabs]) \<longrightarrow>
       mset (concat (map cluster_tabs (published hostname isAIInitialized tabs resp))) =
         mset tabs)) \<and>
   (\<not> accepted isAIInitialized resp \<longrightarrow>
      categorizeTabs isAIInitialized tabs resp =
        Inl (if \<not> isAIInitialized then NotInitialized
             else (case resp of
                     ApiFailure \<Rightarrow> GeminiError
                   | Unparsable \<Rightarrow> SyntaxError
                   | NoClusters \<Rightarrow> InvalidStructure
                   | Clusters rcs \<Rightarrow> TypeError)) \<and>
      published hostname isAIInitialized tabs resp = simpleGroupByDomain hostname tabs \<and>
      mset (concat (map cluster_tabs (published hostname isAIInitialized tabs resp))) = mset tabs)"
proof (intro conjI impI)
  assume a: "accepted isAIInitialized resp"
  let ?cs = "map (with_tabs tabs)
          (filter (\<lambda>c. resolve tabs (indices_of c) \<noteq> []) (returned_clusters resp))"
  have ok: "categorizeTabs isAIInitialized tabs resp = Inr ?cs"
    using a by (rule categorize_accepted)
  show p: "published hostname isAIInitialized tabs resp = ?cs"
    using ok by (rule published_ok)
  show "categorizeTabs isAIInitialized tabs resp =
          Inr (published hostname isAIInitialized tabs resp)"
    unfolding p by (rule ok)
  obtain rcs where resp: "resp = Clusters rcs"
    using a by (cases resp) (simp_all add: accepted_def)
  have rc: "returned_clusters resp = rcs"
    by (simp add: resp returned_clusters_def)
  have ok': "categorizeTabs isAIInitialized tabs (Clusters rcs) =
      Inr (map (with_tabs tabs) (filter (\<lambda>c. resolve tabs (indices_of c) \<noteq> []) rcs))"
    using ok by (simp add: resp returned_clusters_def)
  show c: "concat (map cluster_tabs (published hostname isAIInitialized tabs resp)) =
        resolve tabs (returned_indices (returned_clusters resp))"
    unfolding p rc using ok' by (rule categorize_resolved(1))
  show "\<forall>c \<in> set (published hostname isAIInitialized tabs resp). cluster_tabs c \<noteq> []"
    unfolding p rc using ok' by (rule categorize_resolved(2))
  assume "mset (filter (\<lambda>i. 0 \<le> i \<and> i < int (length tabs))
               (returned_indices (returned_clusters resp))) =
         mset (map int [0..<length tabs])"
  then show "mset (concat (map cluster_tabs (published hostname isAIInitialized tabs resp))) =
         mset tabs"
    unfolding c by (rule resolve_covers)
next
  assume r: "\<not> accepted isAIInitialized resp"
  show e: "categorizeTabs isAIInitialized tabs resp =
        Inl (if \<not> isAIInitialized then NotInitialized
             else (case resp of
                     ApiFailure \<Rightarrow> GeminiError
                   | Unparsable \<Rightarrow> SyntaxError
                   | NoClusters \<Rightarrow> InvalidStructure
                   | Clusters rcs \<Rightarrow> TypeError))"
    using r by (rule categorize_rejected)
  show "published hostname isAIInitialized tabs resp = simpleGroupByDomain hostname tabs"
    using e by (rule published_error)
  then show "mset (concat (map cluster_tabs (published hostname isAIInitialized tabs resp))) =
             mset tabs"
    by (simp only: fallback_partition(4))
qed

lemma categorize_first_only:
  "categorizeTabs True [tab_a, tab_b] resp_first_only =
     Inr [\<lparr>cluster_name = Some ''Dev'', cluster_tabs = [tab_a],
           cluster_theme = ''Collection of dev content''\<rparr>]"
  by (simp add: categorizeTabs_def resp_first_only_def convert_def resolve_def toLowerCase_def)

lemma categorize_both:
  "categorizeTabs True [tab_a, tab_b] resp_both =
     Inr [\<lparr>cluster_name = Some ''Reading'', cluster_tabs = [tab_b, tab_a],
           cluster_theme = ''Both''\<rparr>]"
  by (simp add: categorizeTabs_def resp_both_def convert_def resolve_def)

theorem published_partition_witness:
  "accepted True resp_three \<and> \<not> accepted True resp_no_tabs \<and>
   published simple_hostname True [tab_a, tab_b] resp_three =
     [\<lparr>cluster_name = Some ''Dev'', cluster_tabs = [tab_b],
       cluster_theme = ''Collection of dev content''\<rparr>,
      \<lparr>cluster_name = None, cluster_tabs = [tab_a], cluster_theme = ''Docs''\<rparr>] \<and>
   mset (concat (map cluster_tabs (published simple_hostname True [tab_a, tab_b] resp_three))) =
     mset [tab_a, tab_b] \<and>
   categorizeTabs True [tab_a, tab_b] resp_no_tabs = Inl TypeError \<and>
   published simple_hostname True [tab_a, tab_b] resp_no_tabs =
     [\<lparr>cluster_name = Some ''a.example'', cluster_tabs = [tab_a],
       cluster_theme = ''Content from a.example''\<rparr>,
      \<lparr>cluster_name = Some ''b.example'', cluster_tabs = [tab_b],
       cluster_theme = ''Content from b.example''\<rparr>] \<and>
   mset (concat (map cluster_tabs (published simple_hostname True [tab_a, tab_b] resp_no_tabs))) =
     mset [tab_a, tab_b]"
proof -
  have a: "accepted True resp_three"
    by (simp add: accepted_def resp_three_def usable_def)
  have r: "\<not> accepted True resp_no_tabs"
    by (simp add: accepted_def resp_no_tabs_def usable_def)
  have idx: "mset (filter (\<lambda>i. 0 \<le> i \<and> i < int (length [tab_a, tab_b]))
               (returned_indices (returned_clusters resp_three))) =
             mset (map int [0..<length [tab_a, tab_b]])"
    by (simp add: returned_indices_def returned_clusters_def resp_three_def upt_rec)
  note three = published_partition [of True resp_three "[tab_a, tab_b]" simple_hostname]
  note broken = published_partition [of True resp_no_tabs "[tab_a, tab_b]" simple_hostname]
  have p3: "published simple_hostname True [tab_a, tab_b] resp_three =
        map (with_tabs [tab_a, tab_b])
          (filter (\<lambda>c. resolve [tab_a, tab_b] (indices_of c) \<noteq> [])
             (returned_clusters resp_three))"
    using three a by blast
  have v3: "map (with_tabs [tab_a, tab_b])
          (filter (\<lambda>c. resolve [tab_a, tab_b] (indices_of c) \<noteq> [])
             (returned_clusters resp_three)) =
     [\<lparr>cluster_name = Some ''Dev'', cluster_tabs = [tab_b],
       cluster_theme = ''Collection of dev content''\<rparr>,
      \<lparr>cluster_name = None, cluster_tabs = [tab_a], cluster_theme = ''Docs''\<rparr>]"
    by (simp add: returned_clusters_def resp_three_def with_tabs_def resolve_def indices_of_def
          theme_of_def toLowerCase_def)
  have m3: "mset (concat (map cluster_tabs
              (published simple_hostname True [tab_a, tab_b] resp_three))) = mset [tab_a, tab_b]"
    using three a idx by blast
  have e: "categorizeTabs True [tab_a, tab_b] resp_no_tabs = Inl TypeError"
    using broken r by (simp add: resp_no_tabs_def)
  have pb: "published simple_hostname True [tab_a, tab_b] resp_no_tabs =
              simpleGroupByDomain simple_hostname [tab_a, tab_b]"
    using broken r by blast
  have vb: "simpleGroupByDomain simple_hostname [tab_a, tab_b] =
     [\<lparr>cluster_name = Some ''a.example'', cluster_tabs = [tab_a],
       cluster_theme = ''Content from a.example''\<rparr>,
      \<lparr>cluster_name = Some ''b.example'', cluster_tabs = [tab_b],
       cluster_theme = ''Content from b.example''\<rparr>]"
    by (simp add: fallback_defs simple_hostname_examples)
  have mb: "mset (concat (map cluster_tabs
              (published simple_hostname True [tab_a, tab_b] resp_no_tabs))) = mset [tab_a, tab_b]"
    using broken r by blast
  show ?thesis
    using a r m3 e mb unfolding p3 v3 pb vb by blast
qed

text \<open>
  The claim as the specification states it (every tab referenced exactly once for every
  response, through a default cluster) fails: for two tabs and a response that returns
  index 0 and the out-of-range index 5, the published partition is the single cluster of
  the first tab and the second tab is in no cluster; for a response with an empty
  \<^verbatim>\<open>clusters\<close> array the published partition is empty.
\<close>

theorem default_cluster_counterexample:
  "published simple_hostname True [tab_a, tab_b] resp_first_only =
     [\<lparr>cluster_name = Some ''Dev'', cluster_tabs = [tab_a],
       cluster_theme = ''Collection of dev content''\<rparr>] \<and>
   tab_b \<notin> set (concat (map cluster_tabs
              (published simple_hostname True [tab_a, tab_b] resp_first_only))) \<and>
   published simple_hostname True [tab_a, tab_b] (Clusters []) = []"
proof -
  have p: "published simple_hostname True [tab_a, tab_b] resp_first_only =
     [\<lparr>cluster_name = Some ''Dev'', cluster_tabs = [tab_a],
       cluster_theme = ''Collection of dev content''\<rparr>]"
    using categorize_first_only by (rule published_ok)
  have ne: "tab_b \<noteq> tab_a"
    by (simp add: tab_a_def tab_b_def)
  have "categorizeTabs True [tab_a, tab_b] (Clusters []) = Inr []"
    by (simp add: categorizeTabs_def)
  then have q: "published simple_hostname True [tab_a, tab_b] (Clusters []) = []"
    by (rule published_ok)
  show ?thesis
    unfolding p q using ne by simp
qed

text \<open>
  Claim C4, as the code has it. Responses are published in the order they arrive and
  nothing is compared: whatever a newer request has published, when the response to an
  older request arrives its clusters replace the published state (or, when that response
  is an error, the fallback grouping of the stored tabs does).
\<close>

theorem last_response_wins:
  "aiClusters (response_arrives hostname i requestedA respA
                 (response_arrives hostname i requestedB respB st)) =
     (case categorizeTabs i requestedA respA of
        Inr cs \<Rightarrow> cs
      | Inl e \<Rightarrow> simpleGroupByDomain hostname (st_sharedTabs st))"
  by (simp add: response_arrives_def handleTabsCategorized_def split: sum.splits)

text \<open>
  The claim as the specification states it (the published state remains B's result)
  fails: request A was sent for the tab set \<open>[tab_a]\<close>, request B for \<open>[tab_a, tab_b]\<close>; B's
  response arrives first and is published; A's response arrives next and the published
  state is A's single cluster, in which \<open>tab_b\<close> does not occur.
\<close>

theorem stale_response_counterexample:
  "aiClusters (response_arrives simple_hostname True [tab_a, tab_b] resp_both
      \<lparr>st_sharedTabs = [tab_a, tab_b], aiClusters = []\<rparr>) =
     [\<lparr>cluster_name = Some ''Reading'', cluster_tabs = [tab_b, tab_a], cluster_theme = ''Both''\<rparr>] \<and>
   aiClusters (response_arrives simple_hostname True [tab_a] resp_first_only
     (response_arrives simple_hostname True [tab_a, tab_b] resp_both
        \<lparr>st_sharedTabs = [tab_a, tab_b], aiClusters = []\<rparr>)) =
     [\<lparr>cluster_name = Some ''Dev'', cluster_tabs = [tab_a],
       cluster_theme = ''Collection of dev content''\<rparr>]"
proof -
  have a: "categorizeTabs True [tab_a] resp_first_only =
     Inr [\<lparr>cluster_name = Some ''Dev'', cluster_tabs = [tab_a],
           cluster_theme = ''Collection of dev content''\<rparr>]"
    by (simp add: categorizeTabs_def resp_first_only_def convert_def resolve_def toLowerCase_def)
  show ?thesis
    by (simp add: response_arrives_def handleTabsCategorized_def a categorize_both)
qed

theorem last_response_wins_witness:
  "aiClusters (response_arrives simple_hostname True [tab_a] resp_first_only
     (response_arrives simple_hostname True [tab_a, tab_b] resp_both
        \<lparr>st_sharedTabs = [tab_a, tab_b], aiClusters = []\<rparr>)) =
     [\<lparr>cluster_name = Some ''Dev'', cluster_tabs = [tab_a],
       cluster_theme = ''Collection of dev content''\<rparr>]"
proof -
  have a: "categorizeTabs True [tab_a] resp_first_only =
     Inr [\<lparr>cluster_name = Some ''Dev'', cluster_tabs = [tab_a],
           cluster_theme = ''Collection of dev content''\<rparr>]"
    by (simp add: categorizeTabs_def resp_first_only_def convert_def resolve_def toLowerCase_def)
  show ?thesis
    using last_response_wins [of simple_hostname True "[tab_a]" resp_first_only
        "[tab_a, tab_b]" resp_both "\<lparr>st_sharedTabs = [tab_a, tab_b], aiClusters = []\<rparr>"]
    by (simp add: a)
qed


end
